theory Spec2Isabelle
  imports Complex_Main "HOL-Library.Product_Lexorder" "HOL-Library.Char_ord"
    "HOL-Library.List_Lexorder"
begin

section \<open>JavaScript strings\<close>

text \<open>
  A string is a list of 8-bit characters: the JavaScript strings whose UTF-16 code units are
  all below 256. On these the regular-expression classes \<^verbatim>\<open>\s\<close> and \<^verbatim>\<open>\w\<close>, \<^verbatim>\<open>toLowerCase\<close>,
  \<^verbatim>\<open>trim\<close>, \<^verbatim>\<open>split\<close> and \<^verbatim>\<open>join\<close> are the functions below.
\<close>

definition isSpace :: "char \<Rightarrow> bool" where
  \<comment> \<open>\<^verbatim>\<open>\s\<close>: tab, line feed, vertical tab, form feed, carriage return, space, no-break space\<close>
  "isSpace c = (of_char c \<in> {9, 10, 11, 12, 13, 32, 160 :: nat})"

definition isWord :: "char \<Rightarrow> bool" where
  \<comment> \<open>\<^verbatim>\<open>\w\<close> is \<^verbatim>\<open>[A-Za-z0-9_]\<close>\<close>
  "isWord c = (let n = of_char c :: nat in
     (48 \<le> n \<and> n \<le> 57) \<or> (65 \<le> n \<and> n \<le> 90) \<or> n = 95 \<or> (97 \<le> n \<and> n \<le> 122))"

definition isUpper :: "char \<Rightarrow> bool" where
  \<comment> \<open>the characters below 256 that \<^verbatim>\<open>toLowerCase\<close> changes: A-Z and the Latin-1 capitals\<close>
  "isUpper c = (let n = of_char c :: nat in
     (65 \<le> n \<and> n \<le> 90) \<or> (192 \<le> n \<and> n \<le> 222 \<and> n \<noteq> 215))"

fun toLowerChar :: "char \<Rightarrow> char" where
  \<comment> \<open>the lower-case letter is 32 above its capital: bit 5 set\<close>
  "toLowerChar (Char b0 b1 b2 b3 b4 b5 b6 b7) =
     (if isUpper (Char b0 b1 b2 b3 b4 b5 b6 b7) then Char b0 b1 b2 b3 b4 True b6 b7
      else Char b0 b1 b2 b3 b4 b5 b6 b7)"

definition toLowerCase :: "string \<Rightarrow> string" where
  "toLowerCase s = map toLowerChar s"

definition trim :: "string \<Rightarrow> string" where
  "trim s = rev (dropWhile isSpace (rev (dropWhile isSpace s)))"

text \<open>
  \<^verbatim>\<open>s.split(/\s+/)\<close>: the pieces between the maximal runs of whitespace. A run at the start
  or at the end leaves an empty piece there, and the empty string splits into one empty piece.
  \<open>insep\<close> says that the scan stands inside a run, \<open>cur\<close> is the piece read so far, reversed.
\<close>

fun split_ws_from :: "bool \<Rightarrow> string \<Rightarrow> string \<Rightarrow> string list" where
  "split_ws_from insep cur [] = [rev cur]"
| "split_ws_from insep cur (c # cs) =
     (if isSpace c then
        (if insep then split_ws_from True cur cs else rev cur # split_ws_from True [] cs)
      else split_ws_from False (c # cur) cs)"

definition split_ws :: "string \<Rightarrow> string list" where
  "split_ws s = split_ws_from False [] s"

text \<open>\<^verbatim>\<open>s.split(" ")\<close>: the pieces between single spaces, empty pieces included.\<close>

fun split_space_from :: "string \<Rightarrow> string \<Rightarrow> string list" where
  "split_space_from cur [] = [rev cur]"
| "split_space_from cur (c # cs) =
     (if c = CHR '' '' then rev cur # split_space_from [] cs else split_space_from (c # cur) cs)"

definition split_space :: "string \<Rightarrow> string list" where
  "split_space s = split_space_from [] s"

fun join :: "string \<Rightarrow> string list \<Rightarrow> string" where
  "join sep [] = []"
| "join sep [t] = t"
| "join sep (t # u # ts) = t @ sep @ join sep (u # ts)"

text \<open>\<^verbatim>\<open>s.replace(/\s+/g, " ")\<close>: every maximal run of whitespace becomes one space.\<close>

fun collapse_ws_from :: "bool \<Rightarrow> string \<Rightarrow> string" where
  "collapse_ws_from insep [] = []"
| "collapse_ws_from insep (c # cs) =
     (if isSpace c then
        (if insep then collapse_ws_from True cs else CHR '' '' # collapse_ws_from True cs)
      else c # collapse_ws_from False cs)"

definition collapse_ws :: "string \<Rightarrow> string" where
  "collapse_ws s = collapse_ws_from False s"

section \<open>The query normalizer\<close>

definition FTS5_SPECIAL :: "char list" where
  "FTS5_SPECIAL =
     [CHR 0x22, CHR ''*'', CHR ''('', CHR '')'', CHR ''{'', CHR ''}'', CHR ''['', CHR '']'',
      CHR '':'', CHR ''^'', CHR ''~'', CHR ''!'', CHR ''&'', CHR ''|'', CHR ''@'', CHR ''#'',
      CHR ''$'', CHR ''%'', CHR ''+'', CHR ''='', CHR 0x5C, CHR ''<'', CHR ''>'', CHR '','',
      CHR '';'', CHR ''?'', CHR ''/'', CHR ''-'', CHR 0x60, CHR ''.'', CHR 0x27]"

definition STOP_WORDS :: "string list" where
  "STOP_WORDS =
     [''a'', ''an'', ''the'', ''is'', ''are'', ''was'', ''were'', ''be'', ''been'', ''being'',
      ''have'', ''has'', ''had'', ''do'', ''does'', ''did'', ''will'', ''would'', ''could'',
      ''should'', ''may'', ''might'', ''shall'', ''can'', ''to'', ''of'', ''in'', ''for'',
      ''on'', ''with'', ''at'', ''by'', ''from'', ''as'', ''into'', ''about'', ''it'',
      ''its'', ''this'', ''that'', ''these'', ''those'', ''i'', ''we'', ''you'', ''he'',
      ''she'', ''they'', ''me'', ''him'', ''her'', ''us'', ''them'', ''my'', ''your'',
      ''his'', ''our'', ''their'', ''what'', ''which'', ''who'', ''whom'', ''how'',
      ''when'', ''where'', ''why'', ''not'', ''no'', ''nor'', ''so'', ''if'', ''or'',
      ''and'', ''but'', ''than'', ''too'', ''very'', ''just'']"

definition FTS5_OPERATORS :: "string list" where
  "FTS5_OPERATORS = [''and'', ''or'', ''not'', ''near'']"

definition strip_special :: "string \<Rightarrow> string" where
  \<comment> \<open>\<^verbatim>\<open>raw.replace(FTS5_SPECIAL, " ")\<close>\<close>
  "strip_special raw = map (\<lambda>c. if c \<in> set FTS5_SPECIAL then CHR '' '' else c) raw"

definition strip_nonword :: "string \<Rightarrow> string" where
  \<comment> \<open>\<^verbatim>\<open>raw.replace(/[^\w\s]/g, " ")\<close>\<close>
  "strip_nonword raw = map (\<lambda>c. if isWord c \<or> isSpace c then c else CHR '' '') raw"

definition sanitizeQuery :: "string \<Rightarrow> string" where
  "sanitizeQuery raw =
     (let query = strip_special raw;
          tokens = filter (\<lambda>t. length t > 1 \<and> t \<notin> set STOP_WORDS \<and> t \<notin> set FTS5_OPERATORS)
                     (split_ws (toLowerCase query))
      in if tokens = [] then
           (let fallback = trim (join '' ''
                  (filter (\<lambda>t. length t > 1 \<and> toLowerCase t \<notin> set FTS5_OPERATORS)
                     (split_ws (strip_special raw))))
            in if fallback \<noteq> [] then fallback else trim (strip_nonword raw))
         else join '' '' tokens)"

text \<open>
  What the normalizer must never emit: a reserved operator word standing as a token of its own
  (in any letter case), or a character of the special class.
\<close>

definition operator_token :: "string \<Rightarrow> bool" where
  "operator_token out = list_ex (\<lambda>t. toLowerCase t \<in> set FTS5_OPERATORS) (split_ws out)"

definition special_char :: "string \<Rightarrow> bool" where
  "special_char out = list_ex (\<lambda>c. c \<in> set FTS5_SPECIAL) out"

section \<open>The database\<close>

text \<open>
  The tables of the schema (migrations 1 to 6), each a list of rows in the order of insertion,
  which is the order of the row identifiers (a replaced row is a new row).
  The functions below are the SQL statements the program runs, with the constraints, the
  cascades (\<^verbatim>\<open>PRAGMA foreign_keys = ON\<close>) and the triggers of the schema. They are modelled on
  an opened database: \<^verbatim>\<open>getDb()\<close> has returned its handle.
\<close>

record Memory =
  mem_id :: string
  content :: string
  category :: string
  session_id :: "string option"
  project_id :: "string option"
  source :: "string option"
  time_created :: int
  time_updated :: int
  access_count :: int
  time_last_accessed :: "int option"

record tag_row =
  memory_id :: string
  tag :: string

record MemoryLink =
  source_id :: string
  target_id :: string
  relationship :: string

record fts_row =
  fts_memory_id :: string
  fts_content :: string
  fts_category :: string
  fts_source :: "string option"

record db =
  memory :: "Memory list"
  memory_tags :: "tag_row list"
  memory_links :: "MemoryLink list"
  memory_fts :: "fts_row list"
  metadata :: "(string \<times> string) list"

datatype error = EmptyContent | ContentTooLong | SQLITE_CONSTRAINT

definition empty_db :: db where
  "empty_db = \<lparr>memory = [], memory_tags = [], memory_links = [], memory_fts = [], metadata = []\<rparr>"

definition ids :: "db \<Rightarrow> string set" where
  "ids d = mem_id ` set (memory d)"

definition fts_of :: "Memory \<Rightarrow> fts_row" where
  "fts_of m = \<lparr>fts_memory_id = mem_id m, fts_content = content m, fts_category = category m,
     fts_source = source m\<rparr>"

definition insert_memory :: "db \<Rightarrow> Memory \<Rightarrow> error + db" where
  \<comment> \<open>\<^verbatim>\<open>INSERT INTO memory\<close>: the primary key \<^verbatim>\<open>id\<close>; trigger \<^verbatim>\<open>memory_ai\<close> adds the index row\<close>
  "insert_memory d m =
     (if mem_id m \<in> ids d then Inl SQLITE_CONSTRAINT
      else Inr (d\<lparr>memory := memory d @ [m], memory_fts := memory_fts d @ [fts_of m]\<rparr>))"

definition update_memory :: "db \<Rightarrow> string \<Rightarrow> (Memory \<Rightarrow> Memory) \<Rightarrow> db" where
  \<comment> \<open>\<^verbatim>\<open>UPDATE memory SET ... WHERE id = ?\<close> (no statement sets \<^verbatim>\<open>id\<close>); trigger \<^verbatim>\<open>memory_au\<close>
      replaces the index rows of each updated row\<close>
  "update_memory d i f =
     (let rows = map (\<lambda>m. if mem_id m = i then f m else m) (memory d)
      in if i \<in> ids d then
           d\<lparr>memory := rows,
             memory_fts := filter (\<lambda>r. fts_memory_id r \<noteq> i) (memory_fts d)
                           @ map fts_of (filter (\<lambda>m. mem_id m = i) rows)\<rparr>
         else d)"

definition delete_memory :: "db \<Rightarrow> (Memory \<Rightarrow> bool) \<Rightarrow> db \<times> nat" where
  \<comment> \<open>\<^verbatim>\<open>DELETE FROM memory WHERE ...\<close>: \<^verbatim>\<open>ON DELETE CASCADE\<close> of \<^verbatim>\<open>memory_tags\<close> and of both
      columns of \<^verbatim>\<open>memory_links\<close>, trigger \<^verbatim>\<open>memory_ad\<close>; the count is \<^verbatim>\<open>changes\<close>\<close>
  "delete_memory d P =
     (let gone = map mem_id (filter P (memory d))
      in (d\<lparr>memory := filter (\<lambda>m. \<not> P m) (memory d),
            memory_tags := filter (\<lambda>t. memory_id t \<notin> set gone) (memory_tags d),
            memory_links := filter (\<lambda>l. source_id l \<notin> set gone \<and> target_id l \<notin> set gone)
                              (memory_links d),
            memory_fts := filter (\<lambda>r. fts_memory_id r \<notin> set gone) (memory_fts d)\<rparr>,
          length gone))"

definition insert_tag :: "db \<Rightarrow> string \<Rightarrow> string \<Rightarrow> error + db" where
  \<comment> \<open>\<^verbatim>\<open>INSERT OR IGNORE INTO memory_tags\<close>: an existing pair is ignored, a missing memory
      violates the foreign key\<close>
  "insert_tag d i t =
     (if list_ex (\<lambda>r. memory_id r = i \<and> tag r = t) (memory_tags d) then Inr d
      else if i \<in> ids d then
        Inr (d\<lparr>memory_tags := memory_tags d @ [\<lparr>memory_id = i, tag = t\<rparr>]\<rparr>)
      else Inl SQLITE_CONSTRAINT)"

definition LINK_RELATIONSHIPS :: "string list" where
  "LINK_RELATIONSHIPS = [''related'', ''supersedes'', ''contradicts'', ''extends'']"

definition replace_link :: "db \<Rightarrow> string \<Rightarrow> string \<Rightarrow> string \<Rightarrow> error + db" where
  \<comment> \<open>\<^verbatim>\<open>INSERT OR REPLACE INTO memory_links\<close>: the CHECK on \<^verbatim>\<open>relationship\<close> and the foreign
      keys abort the statement; a row with the same primary key is replaced\<close>
  "replace_link d s t rel =
     (if rel \<in> set LINK_RELATIONSHIPS \<and> s \<in> ids d \<and> t \<in> ids d then
        Inr (d\<lparr>memory_links :=
               filter (\<lambda>l. \<not> (source_id l = s \<and> target_id l = t)) (memory_links d)
               @ [\<lparr>source_id = s, target_id = t, relationship = rel\<rparr>]\<rparr>)
      else Inl SQLITE_CONSTRAINT)"

text \<open>
  \<^verbatim>\<open>ORDER BY time_created DESC\<close>, and \<^verbatim>\<open>LIMIT n\<close> (a negative limit is no limit). SQL leaves
  the order of rows with equal keys open; SQLite returns them in the order in which its plan
  for the statement reads them. On this schema (indexes of migrations 1, 2, 4 and 6, no
  statistics table) the plans are these.

  \<^item> A statement with no condition reads \<^verbatim>\<open>memory\<close> backwards along
    \<^verbatim>\<open>idx_memory_time_created\<close>: of rows with equal time, the row inserted last comes first.

  \<^item> A statement with conditions finds its rows through an index on a column it equates, in
    table order, and sorts them with a stable sort. For the condition
    \<^verbatim>\<open>(project_id = ? OR project_id IS NULL)\<close> alone the index is read twice: the rows of
    the project are found before the rows without a project.

  Texts are compared byte by byte (collation \<^verbatim>\<open>BINARY\<close>), which on the strings considered
  here is the lexicographic order of the character codes.
\<close>

definition order_by_time_created_desc :: "Memory list \<Rightarrow> Memory list" where
  \<comment> \<open>\<^verbatim>\<open>SCAN memory USING INDEX idx_memory_time_created\<close>, backwards\<close>
  "order_by_time_created_desc rows = rev (sort_key time_created rows)"

definition sorter_time_created_desc :: "Memory list \<Rightarrow> Memory list" where
  \<comment> \<open>\<^verbatim>\<open>USE TEMP B-TREE FOR ORDER BY\<close>: a stable sort of the rows in the order found\<close>
  "sorter_time_created_desc rows = sort_key (\<lambda>m. - time_created m) rows"

definition project_or_global :: "db \<Rightarrow> string \<Rightarrow> Memory list" where
  \<comment> \<open>\<^verbatim>\<open>MULTI-INDEX OR\<close> on \<^verbatim>\<open>idx_memory_project\<close>: the rows found for
      \<^verbatim>\<open>(project_id = ? OR project_id IS NULL)\<close>\<close>
  "project_or_global d p =
     filter (\<lambda>m. project_id m = Some p) (memory d) @ filter (\<lambda>m. project_id m = None) (memory d)"

definition sql_limit :: "int \<Rightarrow> 'a list \<Rightarrow> 'a list" where
  "sql_limit n rows = (if n < 0 then rows else take (nat n) rows)"

definition truthy :: "string option \<Rightarrow> string option" where
  \<comment> \<open>a string that JavaScript takes for true: neither absent nor empty\<close>
  "truthy x = (case x of None \<Rightarrow> None | Some s \<Rightarrow> if s = [] then None else Some s)"

definition in_scope :: "string option \<Rightarrow> Memory \<Rightarrow> bool" where
  \<comment> \<open>\<^verbatim>\<open>if (projectId) query += " AND (project_id = ? OR project_id IS NULL)"\<close>\<close>
  "in_scope projectId m =
     (case truthy projectId of
        None \<Rightarrow> True
      | Some p \<Rightarrow> project_id m = Some p \<or> project_id m = None)"

section \<open>Store operations\<close>

definition getMemory :: "db \<Rightarrow> string \<Rightarrow> Memory option" where
  "getMemory d i = find (\<lambda>m. mem_id m = i) (memory d)"

record UpdateInput =
  new_content :: "string option"
  new_category :: "string option"
  new_source :: "string option"

definition updateMemory :: "db \<Rightarrow> string \<Rightarrow> UpdateInput \<Rightarrow> int \<Rightarrow> db \<times> Memory option" where
  "updateMemory d i input now =
     (case getMemory d i of
        None \<Rightarrow> (d, None)
      | Some existing \<Rightarrow>
          if new_content input = None \<and> new_category input = None \<and> new_source input = None
          then (d, Some existing)
          else
            (let d' = update_memory d i (\<lambda>m. m
                   \<lparr>content := (case new_content input of None \<Rightarrow> content m | Some c \<Rightarrow> c),
                    category := (case new_category input of None \<Rightarrow> category m | Some c \<Rightarrow> c),
                    source := (case new_source input of None \<Rightarrow> source m | Some c \<Rightarrow> Some c),
                    time_updated := now\<rparr>)
             in (d', getMemory d' i)))"

definition deleteMemory :: "db \<Rightarrow> string \<Rightarrow> db \<times> bool" where
  "deleteMemory d i = (let (d', changes) = delete_memory d (\<lambda>m. mem_id m = i) in (d', changes > 0))"

definition refreshMemory :: "db \<Rightarrow> string \<Rightarrow> int \<Rightarrow> db \<times> Memory option" where
  "refreshMemory d i now =
     (case getMemory d i of
        None \<Rightarrow> (d, None)
      | Some existing \<Rightarrow>
          (let d' = update_memory d i
                 (\<lambda>m. m\<lparr>access_count := access_count m + 5, time_last_accessed := Some now\<rparr>)
           in (d', getMemory d' i)))"

subsection \<open>Deduplication\<close>

definition normalizeText :: "string \<Rightarrow> string" where
  "normalizeText text = collapse_ws (trim (toLowerCase text))"

definition computeSimilarity :: "string \<Rightarrow> string \<Rightarrow> real" where
  \<comment> \<open>the Jaccard index of the two sets of words longer than one character\<close>
  "computeSimilarity a b =
     (let wordsA = remdups (filter (\<lambda>w. length w > 1) (split_space a));
          wordsB = remdups (filter (\<lambda>w. length w > 1) (split_space b))
      in if wordsA = [] \<and> wordsB = [] then 1
         else if wordsA = [] \<or> wordsB = [] then 0
         else real (length (filter (\<lambda>w. w \<in> set wordsB) wordsA))
              / real (length (remdups (wordsA @ wordsB))))"

text \<open>
  The full-text engine is outside the program: \<open>fts rows q\<close> is what \<^verbatim>\<open>memory_fts MATCH q\<close>
  yields on the index \<open>rows\<close>, the matching rows with their BM25 rank, or \<open>None\<close> when the
  engine raises on the query. The program joins the hits with \<^verbatim>\<open>memory\<close>, filters, orders by
  rank and limits; rows of equal rank stay in the engine's order. Ranks and scores are real
  numbers here, where the program computes with doubles.
\<close>

type_synonym fts_engine = "fts_row list \<Rightarrow> string \<Rightarrow> (fts_row \<times> real) list option"

definition fts_join :: "db \<Rightarrow> (fts_row \<times> real) list \<Rightarrow> (Memory \<times> real) list" where
  \<comment> \<open>\<^verbatim>\<open>FROM memory_fts fts JOIN memory m ON m.id = fts.memory_id\<close>\<close>
  "fts_join d hits =
     concat (map (\<lambda>(f, r). map (\<lambda>m. (m, r)) (filter (\<lambda>m. mem_id m = fts_memory_id f) (memory d)))
       hits)"

datatype duplicate = Exact Memory | Near Memory

definition dedup_candidates :: "db \<Rightarrow> string option \<Rightarrow> Memory list" where
  \<comment> \<open>\<^verbatim>\<open>SELECT * FROM memory WHERE 1=1 [scope] ORDER BY time_created DESC LIMIT 100\<close>\<close>
  "dedup_candidates d projectId =
     take 100 (case truthy projectId of
                 None \<Rightarrow> order_by_time_created_desc (memory d)
               | Some p \<Rightarrow> sorter_time_created_desc (project_or_global d p))"

definition dedup_query :: "string \<Rightarrow> string option" where
  \<comment> \<open>the OR query over the longest tokens of the text, if any token is left\<close>
  "dedup_query text =
     (let tokens = filter (\<lambda>t. length t > 0 \<and> toLowerCase t \<notin> set FTS5_OPERATORS)
                     (split_ws (trim (sanitizeQuery text)));
          sorted = sort_key (\<lambda>t. - int (length t)) tokens;
          queryTokens = take (max 3 (nat \<lceil>real (length tokens) * (6 / 10)\<rceil>)) sorted
      in if tokens = [] then None else Some (join '' OR '' queryTokens))"

definition findDuplicate :: "fts_engine \<Rightarrow> db \<Rightarrow> string \<Rightarrow> string option \<Rightarrow> duplicate option" where
  "findDuplicate fts d text projectId =
     (let normalized = normalizeText text
      in case find (\<lambda>m. normalizeText (content m) = normalized) (dedup_candidates d projectId) of
           Some m \<Rightarrow> Some (Exact m)
         | None \<Rightarrow>
             (case dedup_query text of
                None \<Rightarrow> None
              | Some orQuery \<Rightarrow>
                  (case fts (memory_fts d) orQuery of
                     None \<Rightarrow> None
                   | Some hits \<Rightarrow>
                       (let results = take 5 (sort_key snd
                              (filter (\<lambda>(m, r). in_scope projectId m) (fts_join d hits)))
                        in case find (\<lambda>(m, r). computeSimilarity normalized
                                         (normalizeText (content m)) > 6 / 10) results of
                             None \<Rightarrow> None
                           | Some (m, r) \<Rightarrow> Some (Near m)))))"

subsection \<open>Insert\<close>

record StoreInput =
  in_content :: string
  in_category :: "string option"
  in_sessionId :: "string option"
  in_projectId :: "string option"
  in_source :: "string option"
  in_tags :: "string list"
  in_global :: bool
  in_force :: bool

definition MAX_MEMORY_CONTENT_LENGTH :: nat where
  "MAX_MEMORY_CONTENT_LENGTH = 10000"

fun insert_tags :: "db \<Rightarrow> string \<Rightarrow> string list \<Rightarrow> db \<times> (error + unit)" where
  \<comment> \<open>the loop \<^verbatim>\<open>for (const tag of tags) stmt.run(id, tag.toLowerCase().trim())\<close>; a statement
      that raises ends it, the rows written before stay\<close>
  "insert_tags d i [] = (d, Inr ())"
| "insert_tags d i (t # ts) =
     (case insert_tag d i (trim (toLowerCase t)) of
        Inl e \<Rightarrow> (d, Inl e)
      | Inr d' \<Rightarrow> insert_tags d' i ts)"

definition store_projectId :: "StoreInput \<Rightarrow> string option" where
  \<comment> \<open>\<^verbatim>\<open>input.global ? null : (input.projectId || null)\<close>: a global memory has no project\<close>
  "store_projectId input = (if in_global input then None else truthy (in_projectId input))"

definition new_memory :: "string \<Rightarrow> int \<Rightarrow> StoreInput \<Rightarrow> Memory" where
  \<comment> \<open>the row \<^verbatim>\<open>storeMemory\<close> writes and returns; \<open>i\<close> is the identifier \<^verbatim>\<open>generateId()\<close> drew\<close>
  "new_memory i now input =
     \<lparr>mem_id = i,
      content = in_content input,
      category = (case truthy (in_category input) of None \<Rightarrow> ''general'' | Some c \<Rightarrow> c),
      session_id = truthy (in_sessionId input),
      project_id = store_projectId input,
      source = truthy (in_source input),
      time_created = now,
      time_updated = now,
      access_count = 0,
      time_last_accessed = None\<rparr>"

definition insert_new :: "db \<Rightarrow> string \<Rightarrow> int \<Rightarrow> StoreInput \<Rightarrow> db \<times> (error + Memory)" where
  "insert_new d i now input =
     (case insert_memory d (new_memory i now input) of
        Inl e \<Rightarrow> (d, Inl e)
      | Inr d1 \<Rightarrow>
          (case insert_tags d1 i (in_tags input) of
             (d2, Inl e) \<Rightarrow> (d2, Inl e)
           | (d2, Inr u) \<Rightarrow> (d2, Inr (new_memory i now input))))"

definition storeMemory ::
  "fts_engine \<Rightarrow> db \<Rightarrow> string \<Rightarrow> int \<Rightarrow> StoreInput \<Rightarrow> db \<times> (error + Memory)" where
  "storeMemory fts d i now input =
     (if trim (in_content input) = [] then (d, Inl EmptyContent)
      else if length (in_content input) > MAX_MEMORY_CONTENT_LENGTH then (d, Inl ContentTooLong)
      else
        (let projectId = store_projectId input
         in if in_force input then insert_new d i now input
            else
              (case findDuplicate fts d (in_content input) projectId of
                 Some (Exact m) \<Rightarrow> (d, Inr m)
               | Some (Near m) \<Rightarrow>
                   (case updateMemory d (mem_id m)
                           \<lparr>new_content = Some (in_content input),
                            new_category = Some (case truthy (in_category input) of
                                                   None \<Rightarrow> category m | Some c \<Rightarrow> c),
                            new_source = (case truthy (in_source input) of
                                            None \<Rightarrow> truthy (source m) | Some s \<Rightarrow> Some s)\<rparr>
                           now of
                      (d', Some updated) \<Rightarrow> (d', Inr updated)
                    | (d', None) \<Rightarrow> (d', Inr m))
               | None \<Rightarrow> insert_new d i now input)))"

subsection \<open>Search\<close>

record SearchInput =
  query :: string
  search_category :: "string option"
  search_projectId :: "string option"
  limit :: "int option"
  decayRate :: "real option"

record SearchResult =
  result_memory :: Memory
  rank :: real

definition DEFAULT_DECAY_RATE :: real where
  "DEFAULT_DECAY_RATE = 77 / 10000"

definition finalRank :: "int \<Rightarrow> real \<Rightarrow> Memory \<Rightarrow> real \<Rightarrow> real" where
  "finalRank now rate row base =
     (let ageDays = real_of_int (now - time_created row) / 86400;
          decayFactor = 1 / (1 + ageDays * rate);
          accessBoost = 1 + log 2 (1 + real_of_int (access_count row)) * (1 / 10)
      in base / (decayFactor * accessBoost))"

definition js_slice0 :: "int \<Rightarrow> 'a list \<Rightarrow> 'a list" where
  \<comment> \<open>\<^verbatim>\<open>xs.slice(0, n)\<close>: a negative end counts from the end of the array\<close>
  "js_slice0 n xs = (if n < 0 then take (length xs - nat (- n)) xs else take (nat n) xs)"

definition touch :: "int \<Rightarrow> Memory \<Rightarrow> Memory" where
  "touch now m = m\<lparr>access_count := access_count m + 1, time_last_accessed := Some now\<rparr>"

definition searchMemories ::
  "fts_engine \<Rightarrow> db \<Rightarrow> SearchInput \<Rightarrow> int \<Rightarrow> db \<times> SearchResult list" where
  "searchMemories fts d input now =
     (let lmt = (case limit input of None \<Rightarrow> 10 | Some n \<Rightarrow> if n = 0 then 10 else n);
          sanitized = sanitizeQuery (query input)
      in if trim sanitized = [] then (d, [])
         else
           (case fts (memory_fts d) sanitized of
              None \<Rightarrow> (d, [])
            | Some hits \<Rightarrow>
                (let fetchLimit = min (lmt * 3) 100;
                     rows = sql_limit fetchLimit (sort_key snd
                       (filter (\<lambda>(m, r).
                            (case truthy (search_category input) of
                               None \<Rightarrow> True | Some c \<Rightarrow> category m = c)
                          \<and> in_scope (search_projectId input) m)
                          (fts_join d hits)));
                     rate = (case decayRate input of None \<Rightarrow> DEFAULT_DECAY_RATE | Some r \<Rightarrow> r);
                     scored = map (\<lambda>(row, base). (row, finalRank now rate row base)) rows;
                     top = js_slice0 lmt (sort_key snd scored);
                     d' = fold (\<lambda>(row, score) d. update_memory d (mem_id row) (touch now)) top d
                 in (d', map (\<lambda>(row, score).
                           \<lparr>result_memory = touch now row, rank = score\<rparr>) top))))"

subsection \<open>Listing\<close>

datatype scope = ScopeProject | ScopeGlobal | ScopeAll

record ListOptions =
  list_category :: "string option"
  list_projectId :: "string option"
  list_sessionId :: "string option"
  list_scope :: "scope option"
  list_limit :: "int option"

definition listMemories :: "db \<Rightarrow> ListOptions \<Rightarrow> Memory list" where
  "listMemories d opts =
     (let sc = (case list_scope opts of None \<Rightarrow> ScopeAll | Some x \<Rightarrow> x);
          by_category = (\<lambda>m. case truthy (list_category opts) of
                               None \<Rightarrow> True | Some c \<Rightarrow> category m = c);
          by_scope = (\<lambda>m. case (truthy (list_projectId opts), sc) of
                            (Some p, ScopeProject) \<Rightarrow> project_id m = Some p
                          | (x, ScopeGlobal) \<Rightarrow> project_id m = None
                          | (Some p, ScopeAll) \<Rightarrow> project_id m = Some p \<or> project_id m = None
                          | (None, y) \<Rightarrow> True);
          by_session = (\<lambda>m. case truthy (list_sessionId opts) of
                              None \<Rightarrow> True | Some x \<Rightarrow> session_id m = Some x);
          scope_only = (truthy (list_category opts) = None \<and> truthy (list_sessionId opts) = None);
          rows = (case (truthy (list_projectId opts), sc) of
                    (Some p, ScopeProject) \<Rightarrow> memory d
                  | (x, ScopeGlobal) \<Rightarrow> memory d
                  | (Some p, ScopeAll) \<Rightarrow> if scope_only then project_or_global d p else memory d
                  | (None, y) \<Rightarrow> memory d);
          unconditional = (case (truthy (list_projectId opts), sc) of
                             (Some p, ScopeProject) \<Rightarrow> False
                           | (x, ScopeGlobal) \<Rightarrow> False
                           | (Some p, ScopeAll) \<Rightarrow> False
                           | (None, y) \<Rightarrow> scope_only)
      in sql_limit (case list_limit opts of None \<Rightarrow> 20 | Some n \<Rightarrow> if n = 0 then 20 else n)
           (if unconditional then order_by_time_created_desc (memory d)
            else sorter_time_created_desc
                   (filter (\<lambda>m. by_category m \<and> by_scope m \<and> by_session m) rows)))"

subsection \<open>Tags\<close>

definition getTagsForMemory :: "db \<Rightarrow> string \<Rightarrow> string list" where
  \<comment> \<open>\<^verbatim>\<open>SELECT tag FROM memory_tags WHERE memory_id = ?\<close> is answered from the index of the
      primary key \<^verbatim>\<open>(memory_id, tag)\<close>: the tags come in ascending order\<close>
  "getTagsForMemory d i = sort (map tag (filter (\<lambda>r. memory_id r = i) (memory_tags d)))"

definition addTags :: "db \<Rightarrow> string \<Rightarrow> string list \<Rightarrow> db \<times> (error + unit)" where
  "addTags d i tags = insert_tags d i tags"

definition setTags :: "db \<Rightarrow> string \<Rightarrow> string list \<Rightarrow> db \<times> (error + unit)" where
  "setTags d i tags =
     insert_tags (d\<lparr>memory_tags := filter (\<lambda>r. memory_id r \<noteq> i) (memory_tags d)\<rparr>) i tags"

definition removeTags :: "db \<Rightarrow> string \<Rightarrow> string list \<Rightarrow> db" where
  "removeTags d i tags =
     fold (\<lambda>t d. d\<lparr>memory_tags :=
              filter (\<lambda>r. \<not> (memory_id r = i \<and> tag r = trim (toLowerCase t))) (memory_tags d)\<rparr>)
       tags d"

definition searchByTag :: "db \<Rightarrow> string \<Rightarrow> string option \<Rightarrow> int option \<Rightarrow> Memory list" where
  \<comment> \<open>\<^verbatim>\<open>FROM memory m JOIN memory_tags t ON t.memory_id = m.id WHERE t.tag = ?\<close>, in the
      project alone when one is given. With no project the join follows the rows of the tag
      (\<^verbatim>\<open>idx_tags_tag\<close>), with a project the memories of the project (\<^verbatim>\<open>idx_memory_project\<close>)\<close>
  "searchByTag d tg projectId lmt =
     sql_limit (case lmt of None \<Rightarrow> 20 | Some n \<Rightarrow> if n = 0 then 20 else n)
       (sorter_time_created_desc
          (case truthy projectId of
             None \<Rightarrow>
               concat (map (\<lambda>r. filter (\<lambda>m. mem_id m = memory_id r) (memory d))
                 (filter (\<lambda>r. tag r = trim (toLowerCase tg)) (memory_tags d)))
           | Some p \<Rightarrow>
               concat (map (\<lambda>m. map (\<lambda>r. m)
                   (filter (\<lambda>r. memory_id r = mem_id m \<and> tag r = trim (toLowerCase tg))
                      (memory_tags d)))
                 (filter (\<lambda>m. project_id m = Some p) (memory d)))))"

subsection \<open>Links\<close>

definition addLink :: "db \<Rightarrow> string \<Rightarrow> string \<Rightarrow> string \<Rightarrow> db \<times> (error + bool)" where
  "addLink d sourceId targetId rel =
     (if getMemory d sourceId = None \<or> getMemory d targetId = None then (d, Inr False)
      else if sourceId = targetId then (d, Inr False)
      else
        (case replace_link d sourceId targetId rel of
           Inl e \<Rightarrow> (d, Inl e)
         | Inr d' \<Rightarrow> (d', Inr True)))"

definition removeLink :: "db \<Rightarrow> string \<Rightarrow> string \<Rightarrow> db \<times> bool" where
  "removeLink d sourceId targetId =
     (d\<lparr>memory_links :=
          filter (\<lambda>l. \<not> (source_id l = sourceId \<and> target_id l = targetId)) (memory_links d)\<rparr>,
      list_ex (\<lambda>l. source_id l = sourceId \<and> target_id l = targetId) (memory_links d))"

definition getLinksForMemory :: "db \<Rightarrow> string \<Rightarrow> (MemoryLink \<times> Memory) list" where
  \<comment> \<open>every edge that touches the memory, with the memory at its other end. The condition
      \<^verbatim>\<open>l.source_id = ? OR l.target_id = ?\<close> is answered from two indexes, one after the other:
      the edges leaving the memory along the primary key \<^verbatim>\<open>(source_id, target_id)\<close>, by
      ascending target, then the edges arriving along \<^verbatim>\<open>idx_links_target\<close>, in table order\<close>
  "getLinksForMemory d i =
     concat (map (\<lambda>l. map (\<lambda>m. (l, m))
                (filter (\<lambda>m. mem_id m = (if source_id l = i then target_id l else source_id l))
                   (memory d)))
       (sort_key target_id (filter (\<lambda>l. source_id l = i) (memory_links d))
        @ filter (\<lambda>l. target_id l = i \<and> source_id l \<noteq> i) (memory_links d)))"

definition link_relationships :: "db \<Rightarrow> string \<Rightarrow> string \<Rightarrow> string list" where
  \<comment> \<open>the relationships stored for the ordered pair\<close>
  "link_relationships d s t =
     map relationship (filter (\<lambda>l. source_id l = s \<and> target_id l = t) (memory_links d))"

section \<open>Maintenance\<close>

definition purgeOldMemories :: "db \<Rightarrow> int \<Rightarrow> int \<Rightarrow> db \<times> nat" where
  "purgeOldMemories d now olderThanDays =
     delete_memory d (\<lambda>m. time_created m < now - olderThanDays * 86400
                          \<and> access_count m = 0 \<and> time_last_accessed m = None)"

definition cap_victims :: "db \<Rightarrow> nat \<Rightarrow> string list" where
  \<comment> \<open>\<^verbatim>\<open>SELECT id FROM memory ORDER BY access_count ASC, time_created ASC LIMIT ?\<close>: read
      along \<^verbatim>\<open>idx_memory_access_count\<close> and sorted on the second key by a stable sort, so
      rows equal in both keys stay in table order\<close>
  "cap_victims d excess =
     map mem_id (take excess (sort_key (\<lambda>m. (access_count m, time_created m)) (memory d)))"

definition enforceMaxMemories :: "int \<Rightarrow> db \<Rightarrow> db \<times> nat" where
  \<comment> \<open>\<open>maxMemories\<close> is the configured cap\<close>
  "enforceMaxMemories maxMemories d =
     (if maxMemories \<le> 0 then (d, 0)
      else
        (let count = int (length (memory d))
         in if count \<le> maxMemories then (d, 0)
            else delete_memory d (\<lambda>m. mem_id m \<in> set (cap_victims d (nat (count - maxMemories))))))"

record MaintenanceResult =
  ftsOptimized :: bool
  memoriesPurged :: nat
  memoriesTrimmed :: nat
  dbSizeBytes :: nat

definition setMetadata :: "db \<Rightarrow> string \<Rightarrow> string \<Rightarrow> db" where
  "setMetadata d k v = d\<lparr>metadata := filter (\<lambda>(k', v'). k' \<noteq> k) (metadata d) @ [(k, v)]\<rparr>"

definition runMaintenance ::
  "int \<Rightarrow> bool \<Rightarrow> nat \<Rightarrow> string \<Rightarrow> db \<Rightarrow> db \<times> MaintenanceResult" where
  \<comment> \<open>\<open>optimized\<close>: whether the engine's optimize command went through (it leaves the rows as
      they are); \<open>bytes\<close>: the size of the database file; \<open>stamp\<close>: the clock, printed\<close>
  "runMaintenance maxMemories optimized bytes stamp d =
     (let (d1, trimmed) = enforceMaxMemories maxMemories d
      in (setMetadata d1 ''last_maintenance'' stamp,
          \<lparr>ftsOptimized = optimized, memoriesPurged = 0, memoriesTrimmed = trimmed,
           dbSizeBytes = bytes\<rparr>))"

section \<open>File knowledge cache\<close>

text \<open>
  What the program reads from outside is given: whether the database is available, the
  absolute path \<^verbatim>\<open>path.resolve\<close> returns, the file's current fingerprint (the hash is absent
  when version control has none, the modification time is 0 when the file cannot be read), and
  \<^verbatim>\<open>parseFloat\<close>, whose result is a number or \<^verbatim>\<open>NaN\<close> (an infinite result behaves as \<^verbatim>\<open>NaN\<close>
  does in the one comparison it enters: the comparison fails).
\<close>

record fingerprint =
  gitHash :: "string option"
  mtime :: real

datatype js_number = NaN | Num real

record Freshness =
  fresh :: bool
  fresh_memory :: Memory
  storedContent :: string

definition stored_fingerprint ::
  "(string \<Rightarrow> js_number) \<Rightarrow> string list \<Rightarrow> string option \<times> js_number option" where
  \<comment> \<open>the loop over the memory's tags: the last \<^verbatim>\<open>git:\<close> and the last \<^verbatim>\<open>mtime:\<close> tag count\<close>
  "stored_fingerprint parseFloat tags =
     fold (\<lambda>t (storedGitHash, storedMtime).
             (if take 4 t = ''git:'' then Some (drop 4 t) else storedGitHash,
              if take 6 t = ''mtime:'' then Some (parseFloat (drop 6 t)) else storedMtime))
       tags (None, None)"

definition within_tolerance :: "real \<Rightarrow> js_number \<Rightarrow> bool" where
  \<comment> \<open>\<^verbatim>\<open>Math.abs(current.mtime - storedMtime) < 1000\<close>, false on \<^verbatim>\<open>NaN\<close>\<close>
  "within_tolerance cur stored = (case stored of NaN \<Rightarrow> False | Num v \<Rightarrow> \<bar>cur - v\<bar> < 1000)"

definition checkFileFreshness ::
  "bool \<Rightarrow> (string \<Rightarrow> js_number) \<Rightarrow> db \<Rightarrow> string \<Rightarrow> string \<Rightarrow> fingerprint \<Rightarrow> Freshness option" where
  "checkFileFreshness available parseFloat d absPath projectId current =
     (if \<not> available then None
      else
        (case searchByTag d (''filepath:'' @ absPath) (Some projectId) (Some 1) of
           [] \<Rightarrow> None
         | m # rest \<Rightarrow>
             (let (storedGitHash, storedMtime) =
                    stored_fingerprint parseFloat (getTagsForMemory d (mem_id m))
              in if truthy (gitHash current) \<noteq> None \<and> truthy storedGitHash \<noteq> None then
                   Some \<lparr>fresh = (gitHash current = storedGitHash), fresh_memory = m,
                         storedContent = content m\<rparr>
                 else if storedMtime \<noteq> None \<and> mtime current > 0 then
                   Some \<lparr>fresh = (case storedMtime of None \<Rightarrow> False
                                   | Some v \<Rightarrow> within_tolerance (mtime current) v),
                         fresh_memory = m, storedContent = content m\<rparr>
                 else Some \<lparr>fresh = False, fresh_memory = m, storedContent = content m\<rparr>)))"

text \<open>
  The contract of the check is stated over the tables, with two notions: the memories that
  carry the \<^verbatim>\<open>filepath:\<close> tag of a path, those of the project alone when a project is named;
  and what a memory has stored under a prefix, the rest of its tag with that prefix, of
  several such tags the greatest.
\<close>

definition file_memories :: "db \<Rightarrow> string \<Rightarrow> string \<Rightarrow> Memory list" where
  "file_memories d absPath projectId =
     filter (\<lambda>m. (projectId = [] \<or> project_id m = Some projectId)
                \<and> list_ex (\<lambda>r. memory_id r = mem_id m
                                \<and> tag r = trim (toLowerCase (''filepath:'' @ absPath)))
                     (memory_tags d))
       (memory d)"

definition last_tag :: "string \<Rightarrow> db \<Rightarrow> string \<Rightarrow> string option" where
  "last_tag prefix d i =
     (case filter (\<lambda>t. take (length prefix) t = prefix)
             (map tag (filter (\<lambda>r. memory_id r = i) (memory_tags d))) of
        [] \<Rightarrow> None
      | t # ts \<Rightarrow> Some (drop (length prefix) (fold max ts t)))"

section \<open>Export and import\<close>

record ExportEntry =
  e_id :: string
  e_content :: string
  e_category :: string
  e_source :: "string option"
  e_project_id :: "string option"
  e_time_created :: int
  e_time_updated :: int
  e_access_count :: int
  e_tags :: "string list"
  e_links :: "(string \<times> string) list"

text \<open>An exported link is the pair of \<^verbatim>\<open>target_id\<close> and \<^verbatim>\<open>relationship\<close>.\<close>

definition export_entry :: "db \<Rightarrow> Memory \<Rightarrow> ExportEntry" where
  "export_entry d m =
     \<lparr>e_id = mem_id m, e_content = content m, e_category = category m, e_source = source m,
      e_project_id = project_id m, e_time_created = time_created m,
      e_time_updated = time_updated m, e_access_count = access_count m,
      e_tags = getTagsForMemory d (mem_id m),
      e_links = map (\<lambda>(l, other).
                       (if source_id l = mem_id m then target_id l else source_id l, relationship l))
                  (getLinksForMemory d (mem_id m))\<rparr>"

definition memory_export ::
  "db \<Rightarrow> string \<Rightarrow> string option \<Rightarrow> scope option \<Rightarrow> ExportEntry list" where
  \<comment> \<open>the \<^verbatim>\<open>memories\<close> array of the export document, for the plug-in's project\<close>
  "memory_export d projectId cat sc =
     map (export_entry d)
       (listMemories d
          \<lparr>list_category = cat, list_projectId = Some projectId, list_sessionId = None,
           list_scope = Some (case sc of None \<Rightarrow> ScopeAll | Some x \<Rightarrow> x),
           list_limit = Some 10000\<rparr>)"

record ImportState =
  im_db :: db
  idMap :: "string \<rightharpoonup> string"
  added :: nat
  skipped :: nat
  errors :: nat
  linksRestored :: nat
  calls :: nat

text \<open>
  The first loop of the import. \<open>uuid k\<close> and \<open>clock k\<close> are the identifier and the time that the
  \<open>k\<close>-th call of \<^verbatim>\<open>storeMemory\<close> draws. An entry that raises counts as an error and is left out.
\<close>

definition import_entry ::
  "fts_engine \<Rightarrow> (nat \<Rightarrow> string) \<Rightarrow> (nat \<Rightarrow> int) \<Rightarrow> ExportEntry \<Rightarrow> ImportState \<Rightarrow> ImportState" where
  "import_entry fts uuid clock entry st =
     (if getMemory (im_db st) (e_id entry) \<noteq> None then
        st\<lparr>idMap := (idMap st)(e_id entry \<mapsto> e_id entry), skipped := skipped st + 1\<rparr>
      else
        (case storeMemory fts (im_db st) (uuid (calls st)) (clock (calls st))
                \<lparr>in_content = e_content entry,
                 in_category = Some (if e_category entry = [] then ''general''
                                     else e_category entry),
                 in_sessionId = None,
                 in_projectId = truthy (e_project_id entry),
                 in_source = truthy (e_source entry),
                 in_tags = e_tags entry,
                 in_global = (truthy (e_project_id entry) = None),
                 in_force = True\<rparr> of
           (d', Inr m) \<Rightarrow>
             st\<lparr>im_db := d', idMap := (idMap st)(e_id entry \<mapsto> mem_id m),
                added := added st + 1, calls := calls st + 1\<rparr>
         | (d', Inl e) \<Rightarrow> st\<lparr>im_db := d', errors := errors st + 1, calls := calls st + 1\<rparr>))"

text \<open>The second loop: every exported link is added from the entry to the link's target.\<close>

definition import_link :: "string \<Rightarrow> string \<times> string \<Rightarrow> ImportState \<Rightarrow> ImportState" where
  "import_link entry_id link st =
     (case (truthy (idMap st entry_id), truthy (idMap st (fst link))) of
        (Some sourceId, Some targetId) \<Rightarrow>
          (case addLink (im_db st) sourceId targetId (snd link) of
             (d', Inr ok) \<Rightarrow> st\<lparr>im_db := d', linksRestored := linksRestored st + 1\<rparr>
           | (d', Inl e) \<Rightarrow> st\<lparr>im_db := d'\<rparr>)
      | other \<Rightarrow> st)"

definition memory_import ::
  "fts_engine \<Rightarrow> (nat \<Rightarrow> string) \<Rightarrow> (nat \<Rightarrow> int) \<Rightarrow> db \<Rightarrow> ExportEntry list \<Rightarrow> ImportState" where
  "memory_import fts uuid clock d entries =
     (let st1 = fold (import_entry fts uuid clock) entries
                  \<lparr>im_db = d, idMap = Map.empty, added = 0, skipped = 0, errors = 0,
                   linksRestored = 0, calls = 0\<rparr>
      in fold (\<lambda>entry st. fold (import_link (e_id entry)) (e_links entry) st) entries st1)"

section \<open>The store as a state machine\<close>

text \<open>
  Every operation that writes to the store, with what it reads from outside as arguments;
  \<open>exec\<close> is the store it leaves, also when it raises.
\<close>

datatype store_op =
    OpStore string int StoreInput
  | OpUpdate string UpdateInput int
  | OpDelete string
  | OpRefresh string int
  | OpSearch SearchInput int
  | OpAddTags string "string list"
  | OpSetTags string "string list"
  | OpRemoveTags string "string list"
  | OpAddLink string string string
  | OpRemoveLink string string
  | OpPurge int int
  | OpEnforceCap int
  | OpMaintenance int bool nat string
  | OpImport "nat \<Rightarrow> string" "nat \<Rightarrow> int" "ExportEntry list"

fun exec :: "fts_engine \<Rightarrow> store_op \<Rightarrow> db \<Rightarrow> db" where
  "exec fts (OpStore i now input) d = fst (storeMemory fts d i now input)"
| "exec fts (OpUpdate i input now) d = fst (updateMemory d i input now)"
| "exec fts (OpDelete i) d = fst (deleteMemory d i)"
| "exec fts (OpRefresh i now) d = fst (refreshMemory d i now)"
| "exec fts (OpSearch input now) d = fst (searchMemories fts d input now)"
| "exec fts (OpAddTags i tags) d = fst (addTags d i tags)"
| "exec fts (OpSetTags i tags) d = fst (setTags d i tags)"
| "exec fts (OpRemoveTags i tags) d = removeTags d i tags"
| "exec fts (OpAddLink s t rel) d = fst (addLink d s t rel)"
| "exec fts (OpRemoveLink s t) d = fst (removeLink d s t)"
| "exec fts (OpPurge now days) d = fst (purgeOldMemories d now days)"
| "exec fts (OpEnforceCap maxMemories) d = fst (enforceMaxMemories maxMemories d)"
| "exec fts (OpMaintenance maxMemories optimized bytes stamp) d =
     fst (runMaintenance maxMemories optimized bytes stamp d)"
| "exec fts (OpImport uuid clock entries) d = im_db (memory_import fts uuid clock d entries)"

definition referential_integrity :: "db \<Rightarrow> bool" where
  \<comment> \<open>every tag row, link row and index row belongs to a stored memory\<close>
  "referential_integrity d =
     ((\<forall>t \<in> set (memory_tags d). memory_id t \<in> ids d)
      \<and> (\<forall>l \<in> set (memory_links d). source_id l \<in> ids d \<and> target_id l \<in> ids d)
      \<and> (\<forall>r \<in> set (memory_fts d). fts_memory_id r \<in> ids d))"

definition purged :: "db \<Rightarrow> string \<Rightarrow> bool" where
  \<comment> \<open>no row of any table is left of the memory\<close>
  "purged d i =
     (getMemory d i = None
      \<and> filter (\<lambda>t. memory_id t = i) (memory_tags d) = []
      \<and> filter (\<lambda>l. source_id l = i \<or> target_id l = i) (memory_links d) = []
      \<and> filter (\<lambda>r. fts_memory_id r = i) (memory_fts d) = [])"

definition unique_ids :: "db \<Rightarrow> bool" where
  \<comment> \<open>the primary key of \<^verbatim>\<open>memory\<close>\<close>
  "unique_ids d = distinct (map mem_id (memory d))"

section \<open>Sample stores\<close>

text \<open>Concrete stores and inputs, on which the theorems below are instantiated.\<close>

definition sample_memory :: "string \<Rightarrow> string \<Rightarrow> string option \<Rightarrow> int \<Rightarrow> int \<Rightarrow> Memory" where
  "sample_memory i text p t n =
     \<lparr>mem_id = i, content = text, category = ''general'', session_id = None, project_id = p,
      source = None, time_created = t, time_updated = t, access_count = n,
      time_last_accessed = None\<rparr>"

definition sample_db :: db where
  "sample_db =
     \<lparr>memory = [sample_memory ''a'' ''old decision'' None 10 0,
                sample_memory ''b'' ''new decision'' None 20 0],
      memory_tags = [\<lparr>memory_id = ''a'', tag = ''auth''\<rparr>],
      memory_links = [\<lparr>source_id = ''b'', target_id = ''a'', relationship = ''supersedes''\<rparr>],
      memory_fts = [fts_of (sample_memory ''a'' ''old decision'' None 10 0),
                    fts_of (sample_memory ''b'' ''new decision'' None 20 0)],
      metadata = []\<rparr>"

definition no_hits :: fts_engine where
  "no_hits rows q = Some []"


definition empty_patch :: UpdateInput where
  "empty_patch = \<lparr>new_content = None, new_category = None, new_source = None\<rparr>"

definition cap_db :: db where
  "cap_db =
     \<lparr>memory = [sample_memory ''m1'' ''first'' None 10 0,
                sample_memory ''m2'' ''second'' None 20 2,
                sample_memory ''m3'' ''third'' None 30 0,
                sample_memory ''m4'' ''fourth'' None 40 1,
                sample_memory ''m5'' ''fifth'' None 50 5],
      memory_tags = [\<lparr>memory_id = ''m1'', tag = ''auth''\<rparr>],
      memory_links = [\<lparr>source_id = ''m3'', target_id = ''m2'', relationship = ''extends''\<rparr>],
      memory_fts = map fts_of
               [sample_memory ''m1'' ''first'' None 10 0,
                sample_memory ''m2'' ''second'' None 20 2,
                sample_memory ''m3'' ''third'' None 30 0,
                sample_memory ''m4'' ''fourth'' None 40 1,
                sample_memory ''m5'' ''fifth'' None 50 5],
      metadata = []\<rparr>"

definition file_db :: db where
  "file_db =
     \<lparr>memory = [(sample_memory ''f1'' ''# notes'' (Some ''p1'') 10 0)\<lparr>category := ''discovery''\<rparr>],
      memory_tags = [\<lparr>memory_id = ''f1'', tag = ''filepath:/tmp/x.md''\<rparr>,
                     \<lparr>memory_id = ''f1'', tag = ''git:''\<rparr>,
                     \<lparr>memory_id = ''f1'', tag = ''mtime:1700000000000''\<rparr>],
      memory_links = [],
      memory_fts = [fts_of ((sample_memory ''f1'' ''# notes'' (Some ''p1'') 10 0)
                              \<lparr>category := ''discovery''\<rparr>)],
      metadata = []\<rparr>"

definition git_db :: db where
  "git_db =
     \<lparr>memory = [sample_memory ''g0'' ''# stale'' (Some ''p1'') 5 0,
                sample_memory ''g1'' ''# current'' (Some ''p1'') 10 0,
                sample_memory ''g2'' ''# elsewhere'' (Some ''p2'') 20 0],
      memory_tags = [\<lparr>memory_id = ''g0'', tag = ''filepath:/tmp/y.md''\<rparr>,
                     \<lparr>memory_id = ''g0'', tag = ''git:c3''\<rparr>,
                     \<lparr>memory_id = ''g1'', tag = ''filepath:/tmp/y.md''\<rparr>,
                     \<lparr>memory_id = ''g1'', tag = ''git:b2''\<rparr>,
                     \<lparr>memory_id = ''g1'', tag = ''mtime:1700000000000''\<rparr>,
                     \<lparr>memory_id = ''g1'', tag = ''git:a1''\<rparr>,
                     \<lparr>memory_id = ''g2'', tag = ''filepath:/tmp/y.md''\<rparr>,
                     \<lparr>memory_id = ''g2'', tag = ''git:d4''\<rparr>],
      memory_links = [],
      memory_fts = map fts_of
               [sample_memory ''g0'' ''# stale'' (Some ''p1'') 5 0,
                sample_memory ''g1'' ''# current'' (Some ''p1'') 10 0,
                sample_memory ''g2'' ''# elsewhere'' (Some ''p2'') 20 0],
      metadata = []\<rparr>"

definition sample_parseFloat :: "string \<Rightarrow> js_number" where
  "sample_parseFloat s = (if s = ''1700000000000'' then Num 1700000000000 else NaN)"


definition securely :: string where
  "securely = ''the authentication module uses JWT tokens for signing requests securely''"

definition reliably :: string where
  "reliably = ''the authentication module uses JWT tokens for signing requests reliably''"

definition project_db :: db where
  "project_db =
     \<lparr>memory = [sample_memory ''m1'' securely (Some ''p1'') 10 0],
      memory_tags = [], memory_links = [],
      memory_fts = [fts_of (sample_memory ''m1'' securely (Some ''p1'') 10 0)],
      metadata = []\<rparr>"

definition all_hits :: fts_engine where
  "all_hits rows q = Some (map (\<lambda>r. (r, - 1)) rows)"

definition global_input :: "string \<Rightarrow> StoreInput" where
  "global_input text =
     \<lparr>in_content = text, in_category = None, in_sessionId = None,
      in_projectId = Some ''p2'', in_source = None, in_tags = [], in_global = True,
      in_force = False\<rparr>"

definition rank_db :: db where
  "rank_db =
     \<lparr>memory = [sample_memory ''a'' ''jwt tokens'' None 100 1,
                sample_memory ''b'' ''jwt tokens'' None 100 0],
      memory_tags = [], memory_links = [],
      memory_fts = [fts_of (sample_memory ''a'' ''jwt tokens'' None 100 1),
                    fts_of (sample_memory ''b'' ''jwt tokens'' None 100 0)],
      metadata = []\<rparr>"

definition age_db :: db where
  "age_db =
     \<lparr>memory = [sample_memory ''new'' ''jwt tokens'' None 86500 0,
                sample_memory ''old'' ''jwt tokens'' None 100 0],
      memory_tags = [], memory_links = [],
      memory_fts = [fts_of (sample_memory ''new'' ''jwt tokens'' None 86500 0),
                    fts_of (sample_memory ''old'' ''jwt tokens'' None 100 0)],
      metadata = []\<rparr>"

definition jwt_search :: SearchInput where
  "jwt_search = \<lparr>query = ''jwt'', search_category = None, search_projectId = None,
                  limit = None, decayRate = None\<rparr>"

definition sample_uuid :: "nat \<Rightarrow> string" where
  "sample_uuid k = (if k = 0 then ''n0'' else if k = 1 then ''n1'' else ''n2'')"

definition sample_clock :: "nat \<Rightarrow> int" where
  "sample_clock k = 100 + int k"

definition mutual_db :: db where
  "mutual_db = sample_db\<lparr>memory_links :=
      [\<lparr>source_id = ''a'', target_id = ''b'', relationship = ''extends''\<rparr>,
       \<lparr>source_id = ''b'', target_id = ''a'', relationship = ''contradicts''\<rparr>]\<rparr>"


section \<open>Theorems\<close>

subsection \<open>The query normalizer\<close>

text \<open>
  C2. The normalizer is to emit no reserved operator word as a token of its own, on any of its
  three paths. On the input \<^verbatim>\<open>and\<close> the token filter and the fallback both come out empty, and
  the last resort returns the residue of the input with no operator filter: the output is the
  operator word \<^verbatim>\<open>and\<close> itself.
\<close>

theorem sanitizeQuery_last_resort_operator:
  "sanitizeQuery ''and'' = ''and'' \<and> operator_token (sanitizeQuery ''and'')"
  by code_simp

text \<open>
  The rest of the contract holds. Facts about all characters are checked on the 256 of them.
\<close>

lemma all_chars: "list_all P (Enum.enum :: char list) \<Longrightarrow> P c"
  using enum_UNIV [where 'a = char] by (auto simp: list_all_iff)

lemma special_not_word_space:
  "c \<in> set FTS5_SPECIAL \<Longrightarrow> \<not> isWord c \<and> \<not> isSpace c"
proof -
  have "list_all (\<lambda>c. \<not> isWord c \<and> \<not> isSpace c) FTS5_SPECIAL" by code_simp
  then show "c \<in> set FTS5_SPECIAL \<Longrightarrow> \<not> isWord c \<and> \<not> isSpace c"
    by (simp add: list_all_iff)
qed

lemma toLowerChar_special: "toLowerChar c \<in> set FTS5_SPECIAL \<Longrightarrow> c \<in> set FTS5_SPECIAL"
proof -
  have "list_all (\<lambda>c. toLowerChar c \<notin> set FTS5_SPECIAL \<or> c \<in> set FTS5_SPECIAL) Enum.enum"
    by code_simp
  from all_chars [OF this] show "toLowerChar c \<in> set FTS5_SPECIAL \<Longrightarrow> c \<in> set FTS5_SPECIAL"
    by blast
qed

lemma toLowerChar_idem: "toLowerChar (toLowerChar c) = toLowerChar c"
proof -
  have "list_all (\<lambda>c. toLowerChar (toLowerChar c) = toLowerChar c) Enum.enum"
    by code_simp
  from all_chars [OF this] show ?thesis .
qed

lemma split_ws_from_chars:
  "t \<in> set (split_ws_from insep cur s) \<Longrightarrow> set t \<subseteq> set cur \<union> set s"
proof (induction s arbitrary: insep cur)
  case Nil
  then show ?case by simp
next
  case (Cons c s)
  show ?case
  proof (cases "isSpace c")
    case False
    with Cons.prems have "t \<in> set (split_ws_from False (c # cur) s)" by simp
    from Cons.IH [OF this] show ?thesis by auto
  next
    case True
    show ?thesis
    proof (cases insep)
      case True
      with \<open>isSpace c\<close> Cons.prems have "t \<in> set (split_ws_from True cur s)" by simp
      from Cons.IH [OF this] show ?thesis by auto
    next
      case False
      with \<open>isSpace c\<close> Cons.prems
      consider "t = rev cur" | "t \<in> set (split_ws_from True [] s)" by auto
      then show ?thesis
      proof cases
        case 1
        then show ?thesis by auto
      next
        case 2
        from Cons.IH [OF this] show ?thesis by auto
      qed
    qed
  qed
qed

lemma split_ws_chars: "t \<in> set (split_ws s) \<Longrightarrow> set t \<subseteq> set s"
  using split_ws_from_chars [of t False "[]" s] by (simp add: split_ws_def)

lemma join_chars: "set (join sep ts) \<subseteq> set sep \<union> \<Union> (set ` set ts)"
  by (induction sep ts rule: join.induct) auto

lemma trim_chars: "set (trim s) \<subseteq> set s"
proof -
  have "set (dropWhile isSpace (rev (dropWhile isSpace s))) \<subseteq> set (dropWhile isSpace s)"
    using set_dropWhileD [of _ isSpace "rev (dropWhile isSpace s)"] by auto
  also have "\<dots> \<subseteq> set s"
    using set_dropWhileD [of _ isSpace s] by auto
  finally show ?thesis by (simp add: trim_def)
qed

lemma space_not_special: "CHR '' '' \<notin> set FTS5_SPECIAL"
  by (simp add: FTS5_SPECIAL_def)

lemma strip_special_chars: "c \<in> set (strip_special raw) \<Longrightarrow> c \<notin> set FTS5_SPECIAL"
  using space_not_special by (auto simp: strip_special_def)

lemma strip_nonword_chars: "c \<in> set (strip_nonword raw) \<Longrightarrow> c \<notin> set FTS5_SPECIAL"
  using space_not_special special_not_word_space by (auto simp: strip_nonword_def)

lemma toLowerCase_chars:
  "c \<in> set (toLowerCase s) \<Longrightarrow> c \<in> set FTS5_SPECIAL \<Longrightarrow> \<exists>c' \<in> set s. c' \<in> set FTS5_SPECIAL"
  by (auto simp: toLowerCase_def dest: toLowerChar_special)

text \<open>No path of the normalizer emits a character of the special class.\<close>

lemma sanitizeQuery_no_special: "\<not> special_char (sanitizeQuery raw)"
proof -
  define tokens where "tokens = filter (\<lambda>t. length t > 1 \<and> t \<notin> set STOP_WORDS \<and> t \<notin> set FTS5_OPERATORS)
                     (split_ws (toLowerCase (strip_special raw)))"
  define fallback where "fallback = trim (join '' ''
                  (filter (\<lambda>t. length t > 1 \<and> toLowerCase t \<notin> set FTS5_OPERATORS)
                     (split_ws (strip_special raw))))"
  have out: "sanitizeQuery raw = (if tokens = [] then
                (if fallback \<noteq> [] then fallback else trim (strip_nonword raw))
              else join '' '' tokens)"
    by (simp add: sanitizeQuery_def tokens_def fallback_def Let_def)
  have 1: "c \<notin> set FTS5_SPECIAL" if "c \<in> set (join '' '' tokens)" for c
  proof
    assume s: "c \<in> set FTS5_SPECIAL"
    with that join_chars [of "'' ''" tokens] space_not_special
    obtain t where "t \<in> set tokens" "c \<in> set t" by auto
    then have "c \<in> set (toLowerCase (strip_special raw))"
      using split_ws_chars by (auto simp: tokens_def)
    from toLowerCase_chars [OF this s] strip_special_chars show False by blast
  qed
  have 2: "c \<notin> set FTS5_SPECIAL" if "c \<in> set fallback" for c
  proof
    assume s: "c \<in> set FTS5_SPECIAL"
    from that trim_chars have "c \<in> set (join '' ''
                  (filter (\<lambda>t. length t > 1 \<and> toLowerCase t \<notin> set FTS5_OPERATORS)
                     (split_ws (strip_special raw))))"
      unfolding fallback_def by blast
    with s join_chars [of "'' ''"] space_not_special
    obtain t where "t \<in> set (split_ws (strip_special raw))" "c \<in> set t" by fastforce
    then have "c \<in> set (strip_special raw)" using split_ws_chars by blast
    with s strip_special_chars show False by blast
  qed
  have 3: "c \<notin> set FTS5_SPECIAL" if "c \<in> set (trim (strip_nonword raw))" for c
    using that trim_chars strip_nonword_chars by blast
  from 1 2 3 show ?thesis
    unfolding special_char_def out by (auto simp: list_ex_iff)
qed

lemma split_ws_from_no_space:
  "t \<in> set (split_ws_from insep cur s) \<Longrightarrow> \<forall>c \<in> set cur. \<not> isSpace c \<Longrightarrow> \<forall>c \<in> set t. \<not> isSpace c"
proof (induction s arbitrary: insep cur)
  case Nil
  then show ?case by simp
next
  case (Cons c s)
  show ?case
  proof (cases "isSpace c")
    case False
    with Cons.prems have "t \<in> set (split_ws_from False (c # cur) s)"
      and "\<forall>x \<in> set (c # cur). \<not> isSpace x" by simp_all
    then show ?thesis by (rule Cons.IH)
  next
    case True
    show ?thesis
    proof (cases insep)
      case True
      with \<open>isSpace c\<close> Cons.prems have "t \<in> set (split_ws_from True cur s)" by simp
      then show ?thesis using Cons.prems(2) by (rule Cons.IH)
    next
      case False
      with \<open>isSpace c\<close> Cons.prems
      consider "t = rev cur" | "t \<in> set (split_ws_from True [] s)" by auto
      then show ?thesis
      proof cases
        case 1
        with Cons.prems(2) show ?thesis by simp
      next
        case 2
        then show ?thesis by (rule Cons.IH) simp
      qed
    qed
  qed
qed

lemma split_ws_no_space: "t \<in> set (split_ws s) \<Longrightarrow> \<forall>c \<in> set t. \<not> isSpace c"
  using split_ws_from_no_space [of t False "[]" s] by (simp add: split_ws_def)

lemma split_ws_from_word:
  "\<forall>c \<in> set t. \<not> isSpace c \<Longrightarrow> t \<noteq> [] \<Longrightarrow>
   split_ws_from insep cur (t @ rest) = split_ws_from False (rev t @ cur) rest"
proof (induction t arbitrary: insep cur)
  case Nil
  then show ?case by simp
next
  case (Cons c t)
  show ?case
  proof (cases "t = []")
    case True
    with Cons.prems show ?thesis by simp
  next
    case False
    with Cons.prems Cons.IH [of False "c # cur"] show ?thesis by simp
  qed
qed

lemma space_isSpace: "isSpace CHR '' ''"
  by (simp add: isSpace_def)

lemma split_ws_from_join:
  "ts \<noteq> [] \<Longrightarrow> \<forall>t \<in> set ts. t \<noteq> [] \<and> (\<forall>c \<in> set t. \<not> isSpace c) \<Longrightarrow>
   split_ws_from insep cur (join '' '' ts) = (rev cur @ hd ts) # tl ts"
proof (induction "'' ''" ts arbitrary: insep cur rule: join.induct)
  case 1
  then show ?case by simp
next
  case (2 t)
  then have "split_ws_from insep cur (t @ []) = split_ws_from False (rev t @ cur) []"
    by (intro split_ws_from_word) simp_all
  then show ?case by simp
next
  case (3 t u ts)
  have "split_ws_from insep cur (t @ ('' '' @ join '' '' (u # ts)))
      = split_ws_from False (rev t @ cur) ('' '' @ join '' '' (u # ts))"
    using "3.prems" by (intro split_ws_from_word) simp_all
  also have "\<dots> = (rev cur @ t) # split_ws_from True [] (join '' '' (u # ts))"
    by (simp add: space_isSpace)
  also have "split_ws_from True [] (join '' '' (u # ts)) = (rev [] @ hd (u # ts)) # tl (u # ts)"
    using "3.prems" by (intro "3.hyps") simp_all
  finally show ?case by simp
qed

lemma split_ws_join:
  "ts \<noteq> [] \<Longrightarrow> \<forall>t \<in> set ts. t \<noteq> [] \<and> (\<forall>c \<in> set t. \<not> isSpace c) \<Longrightarrow>
   split_ws (join '' '' ts) = ts"
  using split_ws_from_join [of ts False "[]"] by (simp add: split_ws_def)

lemma join_ends:
  "ts \<noteq> [] \<Longrightarrow> \<forall>t \<in> set ts. t \<noteq> [] \<Longrightarrow>
   join sep ts \<noteq> [] \<and> hd (join sep ts) = hd (hd ts) \<and> last (join sep ts) = last (last ts)"
  by (induction sep ts rule: join.induct) simp_all

lemma trim_clean:
  assumes "s \<noteq> []" and "\<not> isSpace (hd s)" and "\<not> isSpace (last s)"
  shows "trim s = s"
proof -
  from assms(1,2) have 1: "dropWhile isSpace s = s" by (cases s) simp_all
  from assms(1,3) have 2: "dropWhile isSpace (rev s) = rev s"
    by (cases "rev s") (simp_all add: last_rev [symmetric] hd_rev)
  show ?thesis by (simp add: trim_def 1 2)
qed

lemma trim_join:
  assumes "ts \<noteq> []" and "\<forall>t \<in> set ts. t \<noteq> [] \<and> (\<forall>c \<in> set t. \<not> isSpace c)"
  shows "trim (join '' '' ts) = join '' '' ts"
proof -
  from assms have e: "join '' '' ts \<noteq> []" "hd (join '' '' ts) = hd (hd ts)"
      "last (join '' '' ts) = last (last ts)"
    using join_ends [of ts "'' ''"] by simp_all
  from assms have "hd ts \<in> set ts" "last ts \<in> set ts" by simp_all
  with assms(2) have "\<not> isSpace (hd (hd ts))" "\<not> isSpace (last (last ts))"
    by (metis hd_in_set, metis last_in_set)
  with e show ?thesis by (intro trim_clean) simp_all
qed

lemma toLowerCase_idem: "toLowerCase (toLowerCase s) = toLowerCase s"
  by (simp add: toLowerCase_def toLowerChar_idem)

lemma toLowerCase_piece:
  assumes "t \<in> set (split_ws (toLowerCase s))"
  shows "toLowerCase t = t"
proof -
  have "toLowerChar c = c" if "c \<in> set t" for c
  proof -
    from that assms split_ws_chars have "c \<in> set (toLowerCase s)" by blast
    then obtain c' where "c = toLowerChar c'" by (auto simp: toLowerCase_def)
    then show ?thesis by (simp add: toLowerChar_idem)
  qed
  then show ?thesis
    unfolding toLowerCase_def by (simp add: map_idI)
qed

text \<open>
  An operator word can only come out of the last resort: when the normalizer emits one, the
  token filter and the fallback were both empty.
\<close>

lemma sanitizeQuery_operator_only_last_resort:
  assumes "operator_token (sanitizeQuery raw)"
  shows "filter (\<lambda>t. length t > 1 \<and> t \<notin> set STOP_WORDS \<and> t \<notin> set FTS5_OPERATORS)
           (split_ws (toLowerCase (strip_special raw))) = []
       \<and> trim (join '' '' (filter (\<lambda>t. length t > 1 \<and> toLowerCase t \<notin> set FTS5_OPERATORS)
                              (split_ws (strip_special raw)))) = []
       \<and> sanitizeQuery raw = trim (strip_nonword raw)"
proof -
  define tokens where "tokens = filter (\<lambda>t. length t > 1 \<and> t \<notin> set STOP_WORDS \<and> t \<notin> set FTS5_OPERATORS)
                     (split_ws (toLowerCase (strip_special raw)))"
  define words where "words = filter (\<lambda>t. length t > 1 \<and> toLowerCase t \<notin> set FTS5_OPERATORS)
                     (split_ws (strip_special raw))"
  have out: "sanitizeQuery raw = (if tokens = [] then
                (if trim (join '' '' words) \<noteq> [] then trim (join '' '' words)
                 else trim (strip_nonword raw))
              else join '' '' tokens)"
    by (simp add: sanitizeQuery_def tokens_def words_def Let_def)
  have good_tokens: "\<forall>t \<in> set tokens. t \<noteq> [] \<and> (\<forall>c \<in> set t. \<not> isSpace c)"
    using split_ws_no_space by (auto simp: tokens_def)
  have good_words: "\<forall>t \<in> set words. t \<noteq> [] \<and> (\<forall>c \<in> set t. \<not> isSpace c)"
    using split_ws_no_space by (auto simp: words_def)
  have no1: "\<not> operator_token (join '' '' tokens)" if "tokens \<noteq> []"
  proof -
    have "toLowerCase t \<notin> set FTS5_OPERATORS" if "t \<in> set tokens" for t
      using that toLowerCase_piece [of t "strip_special raw"] by (auto simp: tokens_def)
    then show ?thesis
      unfolding operator_token_def split_ws_join [OF that good_tokens]
      by (simp add: list_ex_iff)
  qed
  have no2: "\<not> operator_token (trim (join '' '' words))" if "words \<noteq> []"
  proof -
    have "toLowerCase t \<notin> set FTS5_OPERATORS" if "t \<in> set words" for t
      using that by (simp add: words_def)
    then show ?thesis
      unfolding operator_token_def trim_join [OF that good_words]
        split_ws_join [OF that good_words]
      by (simp add: list_ex_iff)
  qed
  have t: "tokens = []"
    using assms no1 unfolding out by (auto split: if_splits)
  have f: "trim (join '' '' words) = []"
  proof (rule ccontr)
    assume n: "trim (join '' '' words) \<noteq> []"
    then have "words \<noteq> []" by (auto simp: trim_def)
    from no2 [OF this] assms n t show False by (simp add: out)
  qed
  from t f show ?thesis
    unfolding out tokens_def [symmetric] words_def [symmetric] by simp
qed

subsection \<open>Referential integrity\<close>

lemma ids_update_memory:
  "(\<And>m. mem_id (f m) = mem_id m) \<Longrightarrow> ids (update_memory d i f) = ids d"
proof -
  assume f: "\<And>m. mem_id (f m) = mem_id m"
  have "map mem_id (map (\<lambda>m. if mem_id m = i then f m else m) (memory d)) = map mem_id (memory d)"
    by (induction "memory d") (auto simp: f)
  then have "mem_id ` set (map (\<lambda>m. if mem_id m = i then f m else m) (memory d)) = mem_id ` set (memory d)"
    by (metis set_map)
  then show ?thesis
    by (simp add: update_memory_def ids_def Let_def)
qed

lemma fts_update_memory:
  assumes "r \<in> set (memory_fts (update_memory d i f))"
  shows "r \<in> set (memory_fts d) \<or> (fts_memory_id r = i \<and> i \<in> ids d)"
proof (cases "i \<in> ids d")
  case False
  then show ?thesis using assms by (simp add: update_memory_def Let_def)
next
  case True
  then have "memory_fts (update_memory d i f) =
      filter (\<lambda>r. fts_memory_id r \<noteq> i) (memory_fts d)
      @ map fts_of (filter (\<lambda>m. mem_id m = i) (map (\<lambda>m. if mem_id m = i then f m else m) (memory d)))"
    by (simp add: update_memory_def Let_def)
  with assms True show ?thesis
    by (auto simp: fts_of_def)
qed

lemma ri_update_memory:
  assumes "referential_integrity d" and f: "\<And>m. mem_id (f m) = mem_id m"
  shows "referential_integrity (update_memory d i f)"
proof -
  have ids: "ids (update_memory d i f) = ids d" by (rule ids_update_memory) (rule f)
  have tags: "memory_tags (update_memory d i f) = memory_tags d"
    and links: "memory_links (update_memory d i f) = memory_links d"
    by (simp_all add: update_memory_def Let_def)
  have fts: "\<forall>r \<in> set (memory_fts (update_memory d i f)). fts_memory_id r \<in> ids d"
    using assms(1) fts_update_memory [of _ d i f]
    unfolding referential_integrity_def by blast
  show ?thesis
    using assms(1) fts unfolding referential_integrity_def ids tags links by simp
qed

lemma ri_insert_memory:
  assumes "referential_integrity d" and "insert_memory d m = Inr d'"
  shows "referential_integrity d'"
proof -
  from assms(2) have d': "d' = d\<lparr>memory := memory d @ [m], memory_fts := memory_fts d @ [fts_of m]\<rparr>"
    by (simp add: insert_memory_def split: if_splits)
  have ids: "ids d' = insert (mem_id m) (ids d)"
    by (auto simp: d' ids_def)
  show ?thesis
    using assms(1) unfolding referential_integrity_def ids
    by (auto simp: d' fts_of_def)
qed

lemma ids_delete_memory:
  "ids (fst (delete_memory d P)) = mem_id ` set (filter (\<lambda>m. \<not> P m) (memory d))"
  by (simp add: delete_memory_def Let_def ids_def)

lemma kept_delete_memory:
  assumes "x \<in> ids d" and "x \<notin> set (map mem_id (filter P (memory d)))"
  shows "x \<in> ids (fst (delete_memory d P))"
proof -
  from assms(1) obtain m where m: "m \<in> set (memory d)" "mem_id m = x"
    by (auto simp: ids_def)
  with assms(2) have "\<not> P m" by auto
  with m show ?thesis
    unfolding ids_delete_memory by auto
qed

lemma ri_delete_memory:
  assumes "referential_integrity d"
  shows "referential_integrity (fst (delete_memory d P))"
proof -
  let ?gone = "set (map mem_id (filter P (memory d)))"
  have tags: "memory_tags (fst (delete_memory d P)) = filter (\<lambda>t. memory_id t \<notin> ?gone) (memory_tags d)"
    and links: "memory_links (fst (delete_memory d P)) =
       filter (\<lambda>l. source_id l \<notin> ?gone \<and> target_id l \<notin> ?gone) (memory_links d)"
    and fts: "memory_fts (fst (delete_memory d P)) = filter (\<lambda>r. fts_memory_id r \<notin> ?gone) (memory_fts d)"
    by (simp_all add: delete_memory_def Let_def)
  show ?thesis
    unfolding referential_integrity_def tags links fts
    using assms kept_delete_memory [of _ d P]
    unfolding referential_integrity_def by auto
qed

lemma ri_insert_tag:
  assumes "referential_integrity d" and "insert_tag d i t = Inr d'"
  shows "referential_integrity d'"
proof (cases "list_ex (\<lambda>r. memory_id r = i \<and> tag r = t) (memory_tags d)")
  case True
  with assms(2) have "d' = d" by (simp add: insert_tag_def)
  with assms(1) show ?thesis by simp
next
  case False
  with assms(2) have i: "i \<in> ids d"
    and d': "d' = d\<lparr>memory_tags := memory_tags d @ [\<lparr>memory_id = i, tag = t\<rparr>]\<rparr>"
    by (simp_all add: insert_tag_def split: if_splits)
  have "ids d' = ids d" by (simp add: d' ids_def)
  with assms(1) i show ?thesis
    unfolding referential_integrity_def by (auto simp: d')
qed

lemma ri_insert_tags:
  "referential_integrity d \<Longrightarrow> referential_integrity (fst (insert_tags d i ts))"
proof (induction ts arbitrary: d)
  case Nil
  then show ?case by simp
next
  case (Cons t ts)
  show ?case
  proof (cases "insert_tag d i (trim (toLowerCase t))")
    case (Inl e)
    with Cons.prems show ?thesis by simp
  next
    case (Inr d')
    with Cons.prems have "referential_integrity d'" by (auto dest: ri_insert_tag)
    with Cons.IH [of d'] Inr show ?thesis by simp
  qed
qed

lemma ri_replace_link:
  assumes "referential_integrity d" and "replace_link d s t rel = Inr d'"
  shows "referential_integrity d'"
proof -
  from assms(2) have st: "s \<in> ids d" "t \<in> ids d"
    and d': "d' = d\<lparr>memory_links :=
               filter (\<lambda>l. \<not> (source_id l = s \<and> target_id l = t)) (memory_links d)
               @ [\<lparr>source_id = s, target_id = t, relationship = rel\<rparr>]\<rparr>"
    by (auto simp: replace_link_def split: if_splits)
  have "ids d' = ids d" by (simp add: d' ids_def)
  with assms(1) st show ?thesis
    unfolding referential_integrity_def by (auto simp: d')
qed

lemma ri_updateMemory:
  assumes "referential_integrity d"
  shows "referential_integrity (fst (updateMemory d i input now))"
proof (cases "getMemory d i")
  case None
  with assms show ?thesis by (simp add: updateMemory_def)
next
  case (Some existing)
  show ?thesis
  proof (cases "new_content input = None \<and> new_category input = None \<and> new_source input = None")
    case True
    with Some assms show ?thesis by (simp add: updateMemory_def)
  next
    case False
    with Some have "fst (updateMemory d i input now) = update_memory d i (\<lambda>m. m
                   \<lparr>content := (case new_content input of None \<Rightarrow> content m | Some c \<Rightarrow> c),
                    category := (case new_category input of None \<Rightarrow> category m | Some c \<Rightarrow> c),
                    source := (case new_source input of None \<Rightarrow> source m | Some c \<Rightarrow> Some c),
                    time_updated := now\<rparr>)"
      by (auto simp: updateMemory_def Let_def)
    with assms show ?thesis
      by (simp add: ri_update_memory)
  qed
qed

lemma ri_refreshMemory:
  assumes "referential_integrity d"
  shows "referential_integrity (fst (refreshMemory d i now))"
proof (cases "getMemory d i")
  case None
  with assms show ?thesis by (simp add: refreshMemory_def)
next
  case (Some existing)
  then have "fst (refreshMemory d i now) = update_memory d i
       (\<lambda>m. m\<lparr>access_count := access_count m + 5, time_last_accessed := Some now\<rparr>)"
    by (simp add: refreshMemory_def Let_def)
  with assms show ?thesis
    by (simp add: ri_update_memory)
qed

lemma ri_deleteMemory:
  "referential_integrity d \<Longrightarrow> referential_integrity (fst (deleteMemory d i))"
  using ri_delete_memory [of d "\<lambda>m. mem_id m = i"]
  by (simp add: deleteMemory_def split_beta Let_def)

lemma ri_insert_new:
  assumes "referential_integrity d"
  shows "referential_integrity (fst (insert_new d i now input))"
proof (cases "insert_memory d (new_memory i now input)")
  case (Inl e)
  with assms show ?thesis by (simp add: insert_new_def)
next
  case (Inr d1)
  with assms have "referential_integrity d1" by (rule ri_insert_memory)
  then have "referential_integrity (fst (insert_tags d1 i (in_tags input)))"
    by (rule ri_insert_tags)
  moreover have "fst (insert_new d i now input) = fst (insert_tags d1 i (in_tags input))"
    using Inr by (simp add: insert_new_def split: prod.splits sum.splits)
  ultimately show ?thesis by simp
qed

lemma ri_storeMemory:
  assumes "referential_integrity d"
  shows "referential_integrity (fst (storeMemory fts d i now input))"
proof (cases "trim (in_content input) = [] \<or> length (in_content input) > MAX_MEMORY_CONTENT_LENGTH")
  case True
  with assms show ?thesis by (auto simp: storeMemory_def)
next
  case valid: False
  show ?thesis
  proof (cases "in_force input")
    case True
    with valid ri_insert_new [OF assms] show ?thesis
      by (simp add: storeMemory_def Let_def)
  next
    case False
    show ?thesis
    proof (cases "findDuplicate fts d (in_content input) (store_projectId input)")
      case None
      with valid False ri_insert_new [OF assms] show ?thesis
        by (simp add: storeMemory_def Let_def)
    next
      case (Some dup)
      show ?thesis
      proof (cases dup)
        case (Exact m)
        with valid False Some assms show ?thesis
          by (simp add: storeMemory_def Let_def)
      next
        case (Near m)
        define patch where "patch = \<lparr>new_content = Some (in_content input),
                            new_category = Some (case truthy (in_category input) of
                                                   None \<Rightarrow> category m | Some c \<Rightarrow> c),
                            new_source = (case truthy (in_source input) of
                                            None \<Rightarrow> truthy (source m) | Some s \<Rightarrow> Some s)\<rparr>"
        have "fst (storeMemory fts d i now input) = fst (updateMemory d (mem_id m) patch now)"
          using valid False Some Near
          by (simp add: storeMemory_def Let_def patch_def split: prod.splits option.splits)
        with ri_updateMemory [OF assms] show ?thesis by simp
      qed
    qed
  qed
qed

lemma ri_touch_fold:
  "referential_integrity d \<Longrightarrow>
   referential_integrity (fold (\<lambda>(row, score) d. update_memory d (mem_id row) (touch now)) rows d)"
proof (induction rows arbitrary: d)
  case Nil
  then show ?case by simp
next
  case (Cons a rows)
  have "referential_integrity (update_memory d (mem_id (fst a)) (touch now))"
    using Cons.prems by (rule ri_update_memory) (simp add: touch_def)
  from Cons.IH [OF this] show ?case
    by (simp add: split_beta)
qed

lemma ri_searchMemories:
  assumes "referential_integrity d"
  shows "referential_integrity (fst (searchMemories fts d input now))"
proof (cases "trim (sanitizeQuery (query input)) = []")
  case True
  with assms show ?thesis by (simp add: searchMemories_def Let_def)
next
  case nonempty: False
  show ?thesis
  proof (cases "fts (memory_fts d) (sanitizeQuery (query input))")
    case None
    with nonempty assms show ?thesis by (simp add: searchMemories_def Let_def)
  next
    case (Some hits)
    have "\<exists>rows :: (Memory \<times> real) list. fst (searchMemories fts d input now)
           = fold (\<lambda>(row, score) d. update_memory d (mem_id row) (touch now)) rows d"
      unfolding searchMemories_def Let_def using nonempty Some
      by (simp only: if_False option.case fst_conv) blast
    with ri_touch_fold [OF assms] show ?thesis by auto
  qed
qed

lemma ri_tags_subset:
  assumes "referential_integrity d" and "set ts \<subseteq> set (memory_tags d)"
  shows "referential_integrity (d\<lparr>memory_tags := ts\<rparr>)"
proof -
  have "ids (d\<lparr>memory_tags := ts\<rparr>) = ids d" by (simp add: ids_def)
  with assms show ?thesis
    unfolding referential_integrity_def by auto
qed

lemma ri_links_subset:
  assumes "referential_integrity d" and "set ls \<subseteq> set (memory_links d)"
  shows "referential_integrity (d\<lparr>memory_links := ls\<rparr>)"
proof -
  have "ids (d\<lparr>memory_links := ls\<rparr>) = ids d" by (simp add: ids_def)
  with assms show ?thesis
    unfolding referential_integrity_def by auto
qed

lemma ri_setTags:
  assumes "referential_integrity d"
  shows "referential_integrity (fst (setTags d i tags))"
proof -
  have "referential_integrity (d\<lparr>memory_tags := filter (\<lambda>r. memory_id r \<noteq> i) (memory_tags d)\<rparr>)"
    using assms by (rule ri_tags_subset) simp
  then show ?thesis
    unfolding setTags_def by (rule ri_insert_tags)
qed

lemma ri_removeTags:
  "referential_integrity d \<Longrightarrow> referential_integrity (removeTags d i tags)"
  unfolding removeTags_def
proof (induction tags arbitrary: d)
  case Nil
  then show ?case by simp
next
  case (Cons t tags)
  have "referential_integrity (d\<lparr>memory_tags :=
          filter (\<lambda>r. \<not> (memory_id r = i \<and> tag r = trim (toLowerCase t))) (memory_tags d)\<rparr>)"
    using Cons.prems by (rule ri_tags_subset) simp
  from Cons.IH [OF this] show ?case by simp
qed

lemma ri_addLink:
  assumes "referential_integrity d"
  shows "referential_integrity (fst (addLink d s t rel))"
proof (cases "replace_link d s t rel")
  case (Inl e)
  with assms show ?thesis by (simp add: addLink_def)
next
  case (Inr d')
  with assms have "referential_integrity d'" by (rule ri_replace_link)
  with assms Inr show ?thesis by (simp add: addLink_def)
qed

lemma ri_removeLink:
  assumes "referential_integrity d"
  shows "referential_integrity (fst (removeLink d s t))"
proof -
  have "referential_integrity (d\<lparr>memory_links :=
          filter (\<lambda>l. \<not> (source_id l = s \<and> target_id l = t)) (memory_links d)\<rparr>)"
    using assms by (rule ri_links_subset) simp
  then show ?thesis by (simp add: removeLink_def)
qed

lemma ri_enforceMaxMemories:
  assumes "referential_integrity d"
  shows "referential_integrity (fst (enforceMaxMemories maxMemories d))"
  using assms ri_delete_memory [OF assms]
  by (simp add: enforceMaxMemories_def Let_def)

lemma ri_setMetadata:
  assumes "referential_integrity d"
  shows "referential_integrity (setMetadata d k v)"
proof -
  have "ids (setMetadata d k v) = ids d" by (simp add: ids_def setMetadata_def)
  with assms show ?thesis
    unfolding referential_integrity_def by (simp add: setMetadata_def)
qed

lemma ri_runMaintenance:
  assumes "referential_integrity d"
  shows "referential_integrity (fst (runMaintenance maxMemories optimized bytes stamp d))"
  using ri_setMetadata [OF ri_enforceMaxMemories [OF assms]]
  by (simp add: runMaintenance_def split_beta)

lemma ri_import_entry:
  assumes "referential_integrity (im_db st)"
  shows "referential_integrity (im_db (import_entry fts uuid clock entry st))"
proof (cases "getMemory (im_db st) (e_id entry) \<noteq> None")
  case True
  with assms show ?thesis by (simp add: import_entry_def)
next
  case False
  define input where "input = \<lparr>in_content = e_content entry,
                 in_category = Some (if e_category entry = [] then ''general''
                                     else e_category entry),
                 in_sessionId = None,
                 in_projectId = truthy (e_project_id entry),
                 in_source = truthy (e_source entry),
                 in_tags = e_tags entry,
                 in_global = (truthy (e_project_id entry) = None),
                 in_force = True\<rparr>"
  have "im_db (import_entry fts uuid clock entry st)
      = fst (storeMemory fts (im_db st) (uuid (calls st)) (clock (calls st)) input)"
    using False
    by (simp add: import_entry_def input_def split: prod.splits sum.splits)
  with ri_storeMemory [OF assms] show ?thesis by simp
qed

lemma ri_import_entries:
  "referential_integrity (im_db st) \<Longrightarrow>
   referential_integrity (im_db (fold (import_entry fts uuid clock) entries st))"
proof (induction entries arbitrary: st)
  case Nil
  then show ?case by simp
next
  case (Cons e entries)
  from Cons.IH [OF ri_import_entry [OF Cons.prems]] show ?case by simp
qed

lemma ri_import_link:
  assumes "referential_integrity (im_db st)"
  shows "referential_integrity (im_db (import_link entry_id link st))"
proof (cases "truthy (idMap st entry_id)")
  case None
  with assms show ?thesis by (simp add: import_link_def)
next
  case (Some sourceId)
  show ?thesis
  proof (cases "truthy (idMap st (fst link))")
    case None
    with Some assms show ?thesis by (simp add: import_link_def)
  next
    case (Some targetId)
    have "im_db (import_link entry_id link st) = fst (addLink (im_db st) sourceId targetId (snd link))"
      using \<open>truthy (idMap st entry_id) = Some sourceId\<close> Some
      by (simp add: import_link_def split: prod.splits sum.splits)
    with ri_addLink [OF assms] show ?thesis by simp
  qed
qed

lemma ri_import_links:
  "referential_integrity (im_db st) \<Longrightarrow>
   referential_integrity (im_db (fold (import_link entry_id) links st))"
proof (induction links arbitrary: st)
  case Nil
  then show ?case by simp
next
  case (Cons l links)
  from Cons.IH [OF ri_import_link [OF Cons.prems]] show ?case by simp
qed

lemma ri_import_all_links:
  "referential_integrity (im_db st) \<Longrightarrow>
   referential_integrity
     (im_db (fold (\<lambda>entry st. fold (import_link (e_id entry)) (e_links entry) st) entries st))"
proof (induction entries arbitrary: st)
  case Nil
  then show ?case by simp
next
  case (Cons e entries)
  from Cons.IH [OF ri_import_links [OF Cons.prems]] show ?case by simp
qed

lemma ri_memory_import:
  assumes "referential_integrity d"
  shows "referential_integrity (im_db (memory_import fts uuid clock d entries))"
  unfolding memory_import_def Let_def
  by (rule ri_import_all_links, rule ri_import_entries) (simp add: assms)

lemma ri_exec:
  "referential_integrity d \<Longrightarrow> referential_integrity (exec fts op d)"
proof (cases op)
  case (OpPurge now days)
  assume "referential_integrity d"
  then show ?thesis
    unfolding OpPurge exec.simps purgeOldMemories_def by (rule ri_delete_memory)
qed (simp_all add: ri_storeMemory ri_updateMemory ri_deleteMemory ri_refreshMemory
       ri_searchMemories addTags_def ri_insert_tags ri_setTags ri_removeTags ri_addLink
       ri_removeLink ri_enforceMaxMemories ri_runMaintenance ri_memory_import)

lemma purged_deleteMemory:
  assumes "deleteMemory d i = (d', True)"
  shows "purged d' i"
proof -
  let ?gone = "map mem_id (filter (\<lambda>m. mem_id m = i) (memory d))"
  from assms have d': "d' = fst (delete_memory d (\<lambda>m. mem_id m = i))"
    and pos: "0 < length ?gone"
    by (simp_all add: deleteMemory_def delete_memory_def Let_def split_beta)
  have "set ?gone \<subseteq> {i}" by auto
  moreover from pos have "set ?gone \<noteq> {}"
    by (metis length_greater_0_conv set_empty)
  ultimately have gone: "set ?gone = {i}" by (simp only: subset_singleton_iff) blast
  have mem: "memory d' = filter (\<lambda>m. mem_id m \<noteq> i) (memory d)"
    and tags: "memory_tags d' = filter (\<lambda>t. memory_id t \<notin> set ?gone) (memory_tags d)"
    and links: "memory_links d' =
       filter (\<lambda>l. source_id l \<notin> set ?gone \<and> target_id l \<notin> set ?gone) (memory_links d)"
    and fts: "memory_fts d' = filter (\<lambda>r. fts_memory_id r \<notin> set ?gone) (memory_fts d)"
    unfolding d' by (simp_all add: delete_memory_def Let_def)
  have "getMemory d' i = None"
    unfolding getMemory_def mem by (simp add: find_None_iff)
  then show ?thesis
    unfolding purged_def tags links fts gone
    by (auto simp: filter_empty_conv)
qed

lemma purged_absent:
  assumes "referential_integrity d" and "getMemory d i = None"
  shows "purged d i"
proof -
  from assms(2) have "i \<notin> ids d"
    by (auto simp: getMemory_def find_None_iff ids_def)
  with assms show ?thesis
    unfolding purged_def referential_integrity_def
    by (auto simp: filter_empty_conv)
qed

text \<open>
  C7. Deleting a memory cascades. When \<^verbatim>\<open>deleteMemory\<close> reports a removed row, the store it
  leaves (one statement, so one step) holds no memory row, no tag row, no link row with the
  memory at either end and no index row of that identifier. That no row is left of an absent
  memory is referential integrity, and every operation of the store preserves it: so rows of a
  deleted memory stay gone, whatever runs next.
\<close>

theorem delete_cascade:
  "(deleteMemory d i = (d', True) \<longrightarrow> purged d' i)
   \<and> (referential_integrity d \<longrightarrow> referential_integrity (exec fts op d))
   \<and> (referential_integrity d \<longrightarrow> getMemory d i = None \<longrightarrow> purged d i)"
  using purged_deleteMemory ri_exec purged_absent by blast

lemma sample_db_integrity: "referential_integrity sample_db"
  by (simp add: referential_integrity_def sample_db_def ids_def sample_memory_def fts_of_def)

lemma sample_db_delete:
  "deleteMemory sample_db ''a'' =
     (\<lparr>memory = [sample_memory ''b'' ''new decision'' None 20 0],
       memory_tags = [], memory_links = [],
       memory_fts = [fts_of (sample_memory ''b'' ''new decision'' None 20 0)],
       metadata = []\<rparr>, True)"
  by (simp add: deleteMemory_def delete_memory_def sample_db_def sample_memory_def fts_of_def Let_def)

theorem delete_cascade_witness:
  "purged (fst (deleteMemory sample_db ''a'')) ''a''
   \<and> referential_integrity (exec no_hits (OpDelete ''a'') sample_db)
   \<and> purged (exec no_hits (OpDelete ''a'') sample_db) ''a''"
proof -
  let ?d' = "fst (deleteMemory sample_db ''a'')"
  have del: "deleteMemory sample_db ''a'' = (?d', True)"
    by (simp add: sample_db_delete)
  have gone: "getMemory (exec no_hits (OpDelete ''a'') sample_db) ''a'' = None"
    by (simp add: sample_db_delete getMemory_def sample_memory_def)
  from delete_cascade [of sample_db "''a''" ?d' no_hits "OpDelete ''a''"]
       delete_cascade [of "exec no_hits (OpDelete ''a'') sample_db" "''a''" ?d' no_hits "OpDelete ''a''"]
       del gone sample_db_integrity
  show ?thesis by blast
qed

subsection \<open>The primary key\<close>

text \<open>
  Identifiers are unique in the empty store, and every operation keeps them so: the theorems
  below that assume distinct identifiers speak of every store the program can reach.
\<close>

lemma unique_insert_memory:
  assumes "unique_ids d" and "insert_memory d m = Inr d'"
  shows "unique_ids d'"
proof -
  from assms(2) have "mem_id m \<notin> ids d" and "memory d' = memory d @ [m]"
    by (auto simp: insert_memory_def split: if_splits)
  with assms(1) show ?thesis by (simp add: unique_ids_def ids_def)
qed

lemma unique_update_memory:
  assumes "unique_ids d" and f: "\<And>m. mem_id (f m) = mem_id m"
  shows "unique_ids (update_memory d i f)"
proof -
  have "map mem_id (map (\<lambda>m. if mem_id m = i then f m else m) (memory d)) = map mem_id (memory d)"
    by (induction "memory d") (auto simp: f)
  then have "map mem_id (memory (update_memory d i f)) = map mem_id (memory d)"
    by (simp add: update_memory_def Let_def)
  with assms(1) show ?thesis by (simp add: unique_ids_def)
qed

lemma unique_delete_memory:
  "unique_ids d \<Longrightarrow> unique_ids (fst (delete_memory d P))"
  by (simp add: unique_ids_def delete_memory_def Let_def distinct_map_filter)

lemma unique_same_memory:
  "unique_ids d \<Longrightarrow> memory d' = memory d \<Longrightarrow> unique_ids d'"
  by (simp add: unique_ids_def)

lemma memory_insert_tags: "memory (fst (insert_tags d i ts)) = memory d"
proof (induction ts arbitrary: d)
  case Nil
  then show ?case by simp
next
  case (Cons t ts)
  show ?case
  proof (cases "insert_tag d i (trim (toLowerCase t))")
    case (Inl e)
    then show ?thesis by simp
  next
    case (Inr d')
    then have "memory d' = memory d"
      by (auto simp: insert_tag_def split: if_splits)
    with Cons.IH [of d'] Inr show ?thesis by simp
  qed
qed

lemma unique_insert_new:
  assumes "unique_ids d"
  shows "unique_ids (fst (insert_new d i now input))"
proof (cases "insert_memory d (new_memory i now input)")
  case (Inl e)
  with assms show ?thesis by (simp add: insert_new_def)
next
  case (Inr d1)
  with assms have "unique_ids d1" by (rule unique_insert_memory)
  moreover have "fst (insert_new d i now input) = fst (insert_tags d1 i (in_tags input))"
    using Inr by (simp add: insert_new_def split: prod.splits sum.splits)
  ultimately show ?thesis
    by (auto intro: unique_same_memory simp: memory_insert_tags)
qed

lemma unique_updateMemory:
  assumes "unique_ids d"
  shows "unique_ids (fst (updateMemory d i input now))"
proof (cases "getMemory d i")
  case None
  with assms show ?thesis by (simp add: updateMemory_def)
next
  case (Some existing)
  show ?thesis
  proof (cases "new_content input = None \<and> new_category input = None \<and> new_source input = None")
    case True
    with Some assms show ?thesis by (simp add: updateMemory_def)
  next
    case False
    with Some have "fst (updateMemory d i input now) = update_memory d i (\<lambda>m. m
                   \<lparr>content := (case new_content input of None \<Rightarrow> content m | Some c \<Rightarrow> c),
                    category := (case new_category input of None \<Rightarrow> category m | Some c \<Rightarrow> c),
                    source := (case new_source input of None \<Rightarrow> source m | Some c \<Rightarrow> Some c),
                    time_updated := now\<rparr>)"
      by (auto simp: updateMemory_def Let_def)
    with assms show ?thesis
      by (simp add: unique_update_memory)
  qed
qed

lemma unique_storeMemory:
  assumes "unique_ids d"
  shows "unique_ids (fst (storeMemory fts d i now input))"
proof (cases "trim (in_content input) = [] \<or> length (in_content input) > MAX_MEMORY_CONTENT_LENGTH")
  case True
  with assms show ?thesis by (auto simp: storeMemory_def)
next
  case valid: False
  show ?thesis
  proof (cases "in_force input")
    case True
    with valid unique_insert_new [OF assms] show ?thesis
      by (simp add: storeMemory_def Let_def)
  next
    case False
    show ?thesis
    proof (cases "findDuplicate fts d (in_content input) (store_projectId input)")
      case None
      with valid False unique_insert_new [OF assms] show ?thesis
        by (simp add: storeMemory_def Let_def)
    next
      case (Some dup)
      show ?thesis
      proof (cases dup)
        case (Exact m)
        with valid False Some assms show ?thesis
          by (simp add: storeMemory_def Let_def)
      next
        case (Near m)
        define patch where "patch = \<lparr>new_content = Some (in_content input),
                            new_category = Some (case truthy (in_category input) of
                                                   None \<Rightarrow> category m | Some c \<Rightarrow> c),
                            new_source = (case truthy (in_source input) of
                                            None \<Rightarrow> truthy (source m) | Some s \<Rightarrow> Some s)\<rparr>"
        have "fst (storeMemory fts d i now input) = fst (updateMemory d (mem_id m) patch now)"
          using valid False Some Near
          by (simp add: storeMemory_def Let_def patch_def split: prod.splits option.splits)
        with unique_updateMemory [OF assms] show ?thesis by simp
      qed
    qed
  qed
qed

lemma unique_touch_fold:
  "unique_ids d \<Longrightarrow>
   unique_ids (fold (\<lambda>(row, score) d. update_memory d (mem_id row) (touch now)) rows d)"
proof (induction rows arbitrary: d)
  case Nil
  then show ?case by simp
next
  case (Cons a rows)
  have "unique_ids (update_memory d (mem_id (fst a)) (touch now))"
    using Cons.prems by (rule unique_update_memory) (simp add: touch_def)
  from Cons.IH [OF this] show ?case
    by (simp add: split_beta)
qed

lemma unique_searchMemories:
  assumes "unique_ids d"
  shows "unique_ids (fst (searchMemories fts d input now))"
proof (cases "trim (sanitizeQuery (query input)) = []")
  case True
  with assms show ?thesis by (simp add: searchMemories_def Let_def)
next
  case nonempty: False
  show ?thesis
  proof (cases "fts (memory_fts d) (sanitizeQuery (query input))")
    case None
    with nonempty assms show ?thesis by (simp add: searchMemories_def Let_def)
  next
    case (Some hits)
    have "\<exists>rows :: (Memory \<times> real) list. fst (searchMemories fts d input now)
           = fold (\<lambda>(row, score) d. update_memory d (mem_id row) (touch now)) rows d"
      unfolding searchMemories_def Let_def using nonempty Some
      by (simp only: if_False option.case fst_conv) blast
    with unique_touch_fold [OF assms] show ?thesis by auto
  qed
qed

lemma unique_refreshMemory:
  assumes "unique_ids d"
  shows "unique_ids (fst (refreshMemory d i now))"
proof (cases "getMemory d i")
  case None
  with assms show ?thesis by (simp add: refreshMemory_def)
next
  case (Some existing)
  then have "fst (refreshMemory d i now) = update_memory d i
       (\<lambda>m. m\<lparr>access_count := access_count m + 5, time_last_accessed := Some now\<rparr>)"
    by (simp add: refreshMemory_def Let_def)
  with assms show ?thesis
    by (simp add: unique_update_memory)
qed

lemma memory_addLink: "memory (fst (addLink d s t rel)) = memory d"
  by (auto simp: addLink_def replace_link_def split: sum.splits if_splits)

lemma memory_removeTags: "memory (removeTags d i tags) = memory d"
  unfolding removeTags_def by (induction tags arbitrary: d) simp_all

lemma unique_enforceMaxMemories:
  assumes "unique_ids d"
  shows "unique_ids (fst (enforceMaxMemories maxMemories d))"
  using assms unique_delete_memory [OF assms]
  by (simp add: enforceMaxMemories_def Let_def)

lemma unique_runMaintenance:
  assumes "unique_ids d"
  shows "unique_ids (fst (runMaintenance maxMemories optimized bytes stamp d))"
proof -
  have "memory (fst (runMaintenance maxMemories optimized bytes stamp d))
      = memory (fst (enforceMaxMemories maxMemories d))"
    by (simp add: runMaintenance_def setMetadata_def split_beta)
  with unique_enforceMaxMemories [OF assms] show ?thesis
    by (simp add: unique_ids_def)
qed

lemma unique_import_entry:
  assumes "unique_ids (im_db st)"
  shows "unique_ids (im_db (import_entry fts uuid clock entry st))"
proof (cases "getMemory (im_db st) (e_id entry) \<noteq> None")
  case True
  with assms show ?thesis by (simp add: import_entry_def)
next
  case False
  define input where "input = \<lparr>in_content = e_content entry,
                 in_category = Some (if e_category entry = [] then ''general''
                                     else e_category entry),
                 in_sessionId = None,
                 in_projectId = truthy (e_project_id entry),
                 in_source = truthy (e_source entry),
                 in_tags = e_tags entry,
                 in_global = (truthy (e_project_id entry) = None),
                 in_force = True\<rparr>"
  have "im_db (import_entry fts uuid clock entry st)
      = fst (storeMemory fts (im_db st) (uuid (calls st)) (clock (calls st)) input)"
    using False
    by (simp add: import_entry_def input_def split: prod.splits sum.splits)
  with unique_storeMemory [OF assms] show ?thesis by simp
qed

lemma unique_import_entries:
  "unique_ids (im_db st) \<Longrightarrow>
   unique_ids (im_db (fold (import_entry fts uuid clock) entries st))"
proof (induction entries arbitrary: st)
  case Nil
  then show ?case by simp
next
  case (Cons e entries)
  from Cons.IH [OF unique_import_entry [OF Cons.prems]] show ?case by simp
qed

lemma memory_import_link: "memory (im_db (import_link entry_id link st)) = memory (im_db st)"
proof (cases "truthy (idMap st entry_id)")
  case None
  then show ?thesis by (simp add: import_link_def)
next
  case (Some sourceId)
  show ?thesis
  proof (cases "truthy (idMap st (fst link))")
    case None
    with Some show ?thesis by (simp add: import_link_def)
  next
    case (Some targetId)
    have "im_db (import_link entry_id link st) = fst (addLink (im_db st) sourceId targetId (snd link))"
      using \<open>truthy (idMap st entry_id) = Some sourceId\<close> Some
      by (simp add: import_link_def split: prod.splits sum.splits)
    then show ?thesis by (simp add: memory_addLink)
  qed
qed

lemma memory_import_links:
  "memory (im_db (fold (import_link entry_id) links st)) = memory (im_db st)"
  by (induction links arbitrary: st) (simp_all add: memory_import_link)

lemma memory_import_all_links:
  "memory (im_db (fold (\<lambda>entry st. fold (import_link (e_id entry)) (e_links entry) st) entries st))
     = memory (im_db st)"
  by (induction entries arbitrary: st) (simp_all add: memory_import_links)

lemma unique_memory_import:
  assumes "unique_ids d"
  shows "unique_ids (im_db (memory_import fts uuid clock d entries))"
proof -
  have "unique_ids (im_db (fold (import_entry fts uuid clock) entries
                  \<lparr>im_db = d, idMap = Map.empty, added = 0, skipped = 0, errors = 0,
                   linksRestored = 0, calls = 0\<rparr>))"
    by (rule unique_import_entries) (simp add: assms)
  then show ?thesis
    unfolding memory_import_def Let_def
    by (rule unique_same_memory) (rule memory_import_all_links)
qed

lemma unique_exec:
  "unique_ids d \<Longrightarrow> unique_ids (exec fts op d)"
proof (cases op)
  case (OpPurge now days)
  assume "unique_ids d"
  then show ?thesis
    unfolding OpPurge exec.simps purgeOldMemories_def by (rule unique_delete_memory)
next
  case (OpDelete i)
  assume "unique_ids d"
  then show ?thesis
    using unique_delete_memory [of d "\<lambda>m. mem_id m = i"]
    by (simp add: OpDelete deleteMemory_def split_beta Let_def)
next
  case (OpAddTags i tags)
  assume "unique_ids d"
  then show ?thesis
    by (rule unique_same_memory) (simp add: OpAddTags addTags_def memory_insert_tags)
next
  case (OpSetTags i tags)
  assume "unique_ids d"
  then show ?thesis
    by (rule unique_same_memory) (simp add: OpSetTags setTags_def memory_insert_tags)
next
  case (OpRemoveTags i tags)
  assume "unique_ids d"
  then show ?thesis
    by (rule unique_same_memory) (simp add: OpRemoveTags memory_removeTags)
next
  case (OpAddLink s t rel)
  assume "unique_ids d"
  then show ?thesis
    by (rule unique_same_memory) (simp add: OpAddLink memory_addLink)
next
  case (OpRemoveLink s t)
  assume "unique_ids d"
  then show ?thesis
    by (rule unique_same_memory) (simp add: OpRemoveLink removeLink_def)
qed (simp_all add: unique_storeMemory unique_updateMemory unique_refreshMemory
       unique_searchMemories unique_enforceMaxMemories unique_runMaintenance
       unique_memory_import)

lemma unique_empty_db: "unique_ids empty_db"
  by (simp add: unique_ids_def empty_db_def)

subsection \<open>Update\<close>

lemma find_map_same:
  assumes "\<And>x. P (g x) = P x"
  shows "find P (map g xs) = map_option g (find P xs)"
  by (induction xs) (simp_all add: assms)

lemma getMemory_in_ids: "getMemory d i = Some m \<Longrightarrow> i \<in> ids d \<and> mem_id m = i \<and> m \<in> set (memory d)"
  by (auto simp: getMemory_def ids_def find_Some_iff)

lemma getMemory_None_iff: "getMemory d i = None \<longleftrightarrow> i \<notin> ids d"
  by (auto simp: getMemory_def ids_def find_None_iff)

lemma getMemory_update_memory:
  assumes "\<And>m. mem_id (f m) = mem_id m"
  shows "getMemory (update_memory d i f) j
       = map_option (\<lambda>m. if mem_id m = i then f m else m) (getMemory d j)"
proof (cases "i \<in> ids d")
  case True
  then have "memory (update_memory d i f) = map (\<lambda>m. if mem_id m = i then f m else m) (memory d)"
    by (simp add: update_memory_def Let_def)
  then show ?thesis
    unfolding getMemory_def
    by (simp add: find_map_same assms)
next
  case False
  then have same: "update_memory d i f = d" by (simp add: update_memory_def Let_def)
  show ?thesis
  proof (cases "getMemory d j")
    case None
    then show ?thesis by (simp add: same)
  next
    case (Some m)
    with False have "mem_id m \<noteq> i" by (auto dest: getMemory_in_ids simp: ids_def)
    with Some show ?thesis by (simp add: same)
  qed
qed

text \<open>
  C4, as amended. \<^verbatim>\<open>updateMemory\<close> returns nothing exactly when no memory has the identifier,
  and raises in no case. On an existing memory it returns the stored row with exactly the
  supplied fields replaced; \<^verbatim>\<open>time_updated\<close> becomes the current time when at least one field is
  supplied, and stays as it is on the empty patch, which leaves the store untouched. The other
  memories are as before.
\<close>

theorem updateMemory_patch:
  assumes "updateMemory d i input now = (d', r)"
  shows "(r = None \<longleftrightarrow> getMemory d i = None)
     \<and> (\<forall>m. getMemory d i = Some m \<longrightarrow>
          r = Some (m\<lparr>content := (case new_content input of None \<Rightarrow> content m | Some c \<Rightarrow> c),
                      category := (case new_category input of None \<Rightarrow> category m | Some c \<Rightarrow> c),
                      source := (case new_source input of None \<Rightarrow> source m | Some c \<Rightarrow> Some c),
                      time_updated := (if new_content input = None \<and> new_category input = None
                                          \<and> new_source input = None
                                       then time_updated m else now)\<rparr>)
          \<and> getMemory d' i = r)
     \<and> (\<forall>j. j \<noteq> i \<longrightarrow> getMemory d' j = getMemory d j)"
proof (cases "getMemory d i")
  case None
  with assms show ?thesis by (simp add: updateMemory_def)
next
  case (Some m)
  then have mi: "mem_id m = i" by (simp add: getMemory_in_ids)
  show ?thesis
  proof (cases "new_content input = None \<and> new_category input = None \<and> new_source input = None")
    case True
    with assms Some have "d' = d" "r = Some m" by (simp_all add: updateMemory_def)
    with Some True show ?thesis by simp
  next
    case False
    define f :: "Memory \<Rightarrow> Memory" where "f = (\<lambda>m. m
                   \<lparr>content := (case new_content input of None \<Rightarrow> content m | Some c \<Rightarrow> c),
                    category := (case new_category input of None \<Rightarrow> category m | Some c \<Rightarrow> c),
                    source := (case new_source input of None \<Rightarrow> source m | Some c \<Rightarrow> Some c),
                    time_updated := now\<rparr>)"
    have f: "\<And>m. mem_id (f m) = mem_id m" by (simp add: f_def)
    from assms Some False have d': "d' = update_memory d i f" and r: "r = getMemory d' i"
      by (auto simp: updateMemory_def Let_def f_def)
    have get: "getMemory d' j = map_option (\<lambda>m. if mem_id m = i then f m else m) (getMemory d j)" for j
      unfolding d' by (rule getMemory_update_memory) (rule f)
    have "getMemory d' i = Some (f m)"
      by (simp add: get Some mi)
    moreover have "getMemory d' j = getMemory d j" if "j \<noteq> i" for j
    proof (cases "getMemory d j")
      case None
      then show ?thesis by (simp add: get)
    next
      case (Some x)
      then have "mem_id x = j" by (simp add: getMemory_in_ids)
      with that Some show ?thesis by (simp add: get)
    qed
    moreover have "(if new_content input = None \<and> new_category input = None
                        \<and> new_source input = None then time_updated m else now) = now"
      using False by (simp only: if_not_P if_False)
    ultimately show ?thesis
      using Some r by (simp add: f_def)
  qed
qed

text \<open>
  C4 as stated fails on the empty patch: the guard \<^verbatim>\<open>if (fields.length === 0) return existing\<close>
  returns the memory with its old \<^verbatim>\<open>time_updated\<close>.
\<close>

theorem updateMemory_empty_patch_counterexample:
  "\<not> (\<forall>d i input now m. getMemory d i = Some m \<longrightarrow>
         (\<exists>m'. snd (updateMemory d i input now) = Some m' \<and> time_updated m' = now))"
proof
  assume "\<forall>d i input now m. getMemory d i = Some m \<longrightarrow>
         (\<exists>m'. snd (updateMemory d i input now) = Some m' \<and> time_updated m' = now)"
  then have "getMemory sample_db ''a'' = Some (sample_memory ''a'' ''old decision'' None 10 0) \<longrightarrow>
     (\<exists>m'. snd (updateMemory sample_db ''a'' empty_patch 99) = Some m' \<and> time_updated m' = 99)"
    by blast
  then show False
    by (simp add: updateMemory_def getMemory_def sample_db_def sample_memory_def empty_patch_def)
qed

theorem updateMemory_patch_witness:
  "snd (updateMemory sample_db ''a''
          \<lparr>new_content = Some ''revised'', new_category = None, new_source = None\<rparr> 99)
     = Some ((sample_memory ''a'' ''revised'' None 10 0)\<lparr>time_updated := 99\<rparr>)
   \<and> snd (updateMemory sample_db ''zz''
          \<lparr>new_content = Some ''revised'', new_category = None, new_source = None\<rparr> 99) = None"
proof -
  let ?p = "\<lparr>new_content = Some ''revised'', new_category = None, new_source = None\<rparr>"
  have a: "getMemory sample_db ''a'' = Some (sample_memory ''a'' ''old decision'' None 10 0)"
    and z: "getMemory sample_db ''zz'' = None"
    by (simp_all add: getMemory_def sample_db_def sample_memory_def)
  from updateMemory_patch [of sample_db "''a''" ?p 99
         "fst (updateMemory sample_db ''a'' ?p 99)" "snd (updateMemory sample_db ''a'' ?p 99)"]
       updateMemory_patch [of sample_db "''zz''" ?p 99
         "fst (updateMemory sample_db ''zz'' ?p 99)" "snd (updateMemory sample_db ''zz'' ?p 99)"]
       a z
  show ?thesis by (simp add: sample_memory_def)
qed

subsection \<open>Links\<close>

text \<open>
  C6, as amended. \<^verbatim>\<open>addLink\<close> returns false when either identifier names no memory or when
  both are the same, whatever the relationship. For two different existing memories, a
  relationship of the allowed set is upserted (the ordered pair then carries exactly this
  relationship, every other pair and every other table are as before) and the result is true;
  a relationship outside the set, which the parameter's type excludes, violates the CHECK
  constraint of the table and the statement raises.
\<close>

theorem addLink_result:
  "(getMemory d s = None \<or> getMemory d t = None \<or> s = t \<longrightarrow> addLink d s t rel = (d, Inr False))
   \<and> (getMemory d s \<noteq> None \<and> getMemory d t \<noteq> None \<and> s \<noteq> t \<and> rel \<notin> set LINK_RELATIONSHIPS
        \<longrightarrow> addLink d s t rel = (d, Inl SQLITE_CONSTRAINT))
   \<and> (getMemory d s \<noteq> None \<and> getMemory d t \<noteq> None \<and> s \<noteq> t \<and> rel \<in> set LINK_RELATIONSHIPS
        \<longrightarrow> (\<exists>d'. addLink d s t rel = (d', Inr True)
               \<and> link_relationships d' s t = [rel]
               \<and> (\<forall>s' t'. (s', t') \<noteq> (s, t)
                     \<longrightarrow> link_relationships d' s' t' = link_relationships d s' t')
               \<and> memory d' = memory d \<and> memory_tags d' = memory_tags d
               \<and> memory_fts d' = memory_fts d))"
proof (intro conjI impI)
  assume "getMemory d s = None \<or> getMemory d t = None \<or> s = t"
  then show "addLink d s t rel = (d, Inr False)"
    by (auto simp: addLink_def)
next
  assume a: "getMemory d s \<noteq> None \<and> getMemory d t \<noteq> None \<and> s \<noteq> t \<and> rel \<notin> set LINK_RELATIONSHIPS"
  then have "replace_link d s t rel = Inl SQLITE_CONSTRAINT"
    by (simp add: replace_link_def)
  with a show "addLink d s t rel = (d, Inl SQLITE_CONSTRAINT)"
    by (simp add: addLink_def)
next
  assume a: "getMemory d s \<noteq> None \<and> getMemory d t \<noteq> None \<and> s \<noteq> t \<and> rel \<in> set LINK_RELATIONSHIPS"
  define d' where "d' = d\<lparr>memory_links :=
               filter (\<lambda>l. \<not> (source_id l = s \<and> target_id l = t)) (memory_links d)
               @ [\<lparr>source_id = s, target_id = t, relationship = rel\<rparr>]\<rparr>"
  from a have "s \<in> ids d" "t \<in> ids d" by (simp_all add: getMemory_None_iff)
  with a have "replace_link d s t rel = Inr d'"
    by (simp add: replace_link_def d'_def)
  with a have 1: "addLink d s t rel = (d', Inr True)"
    by (simp add: addLink_def)
  have 2: "link_relationships d' s t = [rel]"
    by (simp add: link_relationships_def d'_def filter_empty_conv)
  have 3: "link_relationships d' s' t' = link_relationships d s' t'" if "(s', t') \<noteq> (s, t)" for s' t'
  proof -
    have "filter (\<lambda>l. source_id l = s' \<and> target_id l = t')
            (filter (\<lambda>l. \<not> (source_id l = s \<and> target_id l = t)) (memory_links d))
        = filter (\<lambda>l. source_id l = s' \<and> target_id l = t') (memory_links d)"
      using that by (auto intro: filter_cong)
    with that show ?thesis
      by (auto simp: link_relationships_def d'_def)
  qed
  have 4: "memory d' = memory d \<and> memory_tags d' = memory_tags d \<and> memory_fts d' = memory_fts d"
    by (simp add: d'_def)
  from 1 2 3 4 show "\<exists>d'. addLink d s t rel = (d', Inr True)
               \<and> link_relationships d' s t = [rel]
               \<and> (\<forall>s' t'. (s', t') \<noteq> (s, t)
                     \<longrightarrow> link_relationships d' s' t' = link_relationships d s' t')
               \<and> memory d' = memory d \<and> memory_tags d' = memory_tags d
               \<and> memory_fts d' = memory_fts d"
    by blast
qed

text \<open>
  C6 as stated fails: for a relationship outside the allowed set \<^verbatim>\<open>addLink\<close> does not return
  false, the insert raises.
\<close>

theorem addLink_unknown_relationship_counterexample:
  "\<not> (\<forall>d s t rel. rel \<notin> set LINK_RELATIONSHIPS \<longrightarrow> snd (addLink d s t rel) = Inr False)"
proof
  assume "\<forall>d s t rel. rel \<notin> set LINK_RELATIONSHIPS \<longrightarrow> snd (addLink d s t rel) = Inr False"
  then have "''duplicates'' \<notin> set LINK_RELATIONSHIPS
      \<longrightarrow> snd (addLink sample_db ''a'' ''b'' ''duplicates'') = Inr False"
    by blast
  then show False
    by (simp add: LINK_RELATIONSHIPS_def addLink_def replace_link_def getMemory_def sample_db_def
          sample_memory_def)
qed

theorem addLink_result_witness:
  "snd (addLink sample_db ''a'' ''zz'' ''related'') = Inr False
   \<and> snd (addLink sample_db ''a'' ''b'' ''duplicates'') = Inl SQLITE_CONSTRAINT
   \<and> snd (addLink sample_db ''b'' ''a'' ''extends'') = Inr True
   \<and> link_relationships (fst (addLink sample_db ''b'' ''a'' ''extends'')) ''b'' ''a'' = [''extends'']"
proof -
  have a: "getMemory sample_db ''a'' \<noteq> None" and b: "getMemory sample_db ''b'' \<noteq> None"
    and z: "getMemory sample_db ''zz'' = None"
    by (simp_all add: getMemory_def sample_db_def sample_memory_def)
  have r: "''duplicates'' \<notin> set LINK_RELATIONSHIPS" "''extends'' \<in> set LINK_RELATIONSHIPS"
    by (simp_all add: LINK_RELATIONSHIPS_def)
  from addLink_result [of sample_db "''a''" "''zz''" "''related''"]
       addLink_result [of sample_db "''a''" "''b''" "''duplicates''"]
       addLink_result [of sample_db "''b''" "''a''" "''extends''"]
       a b z r
  show ?thesis by auto
qed

subsection \<open>Cap enforcement\<close>

lemma cap_order_split:
  fixes k :: "'a \<Rightarrow> 'b::linorder"
  assumes "x \<in> set (take n (sort_key k xs))" and "r \<in> set (drop n (sort_key k xs))"
  shows "k x \<le> k r"
proof -
  have "sorted (map k (take n (sort_key k xs) @ drop n (sort_key k xs)))"
    by (simp only: append_take_drop_id sorted_sort_key)
  then have "\<forall>a \<in> set (map k (take n (sort_key k xs))). \<forall>b \<in> set (map k (drop n (sort_key k xs))). a \<le> b"
    by (simp only: map_append sorted_append) blast
  with assms show ?thesis by simp
qed

lemma victims_rows:
  assumes "distinct (map mem_id xs)" and "set V \<subseteq> set xs" and "m \<in> set xs"
  shows "mem_id m \<in> set (map mem_id V) \<longleftrightarrow> m \<in> set V"
proof -
  from assms(1) have inj: "inj_on mem_id (set xs)" by (simp add: distinct_map)
  show ?thesis
  proof
    assume "mem_id m \<in> set (map mem_id V)"
    then obtain v where v: "v \<in> set V" "mem_id v = mem_id m" by auto
    with assms(2) have "v \<in> set xs" by auto
    with inj v assms(3) have "v = m" by (auto dest: inj_onD)
    with v show "m \<in> set V" by simp
  qed auto
qed

lemma delete_victims:
  assumes dist: "distinct (map mem_id (memory d))" and n: "n \<le> length (memory d)"
  defines "V \<equiv> take n (sort_key (\<lambda>m. (access_count m, time_created m)) (memory d))"
  shows "memory (fst (delete_memory d (\<lambda>m. mem_id m \<in> set (cap_victims d n))))
           = filter (\<lambda>m. m \<notin> set V) (memory d)"
    and "snd (delete_memory d (\<lambda>m. mem_id m \<in> set (cap_victims d n))) = n"
    and "length (filter (\<lambda>m. m \<notin> set V) (memory d)) = length (memory d) - n"
proof -
  let ?S = "sort_key (\<lambda>m. (access_count m, time_created m)) (memory d)"
  have sub: "set V \<subseteq> set (memory d)"
    unfolding V_def using set_take_subset [of n ?S] by simp
  have P: "mem_id m \<in> set (cap_victims d n) \<longleftrightarrow> m \<in> set V" if "m \<in> set (memory d)" for m
    unfolding cap_victims_def V_def [symmetric]
    using dist sub that by (rule victims_rows)
  have f1: "filter (\<lambda>m. mem_id m \<in> set (cap_victims d n)) (memory d) = filter (\<lambda>m. m \<in> set V) (memory d)"
    by (rule filter_cong) (simp_all add: P)
  have f2: "filter (\<lambda>m. \<not> mem_id m \<in> set (cap_victims d n)) (memory d) = filter (\<lambda>m. m \<notin> set V) (memory d)"
    by (rule filter_cong) (simp_all add: P)
  show 1: "memory (fst (delete_memory d (\<lambda>m. mem_id m \<in> set (cap_victims d n))))
           = filter (\<lambda>m. m \<notin> set V) (memory d)"
    by (simp add: delete_memory_def Let_def f2)
  from dist have dm: "distinct (memory d)" by (simp add: distinct_map)
  then have dS: "distinct ?S" by simp
  then have dV: "distinct V" unfolding V_def by simp
  have lenV: "length V = n" unfolding V_def using n by simp
  have "set (filter (\<lambda>m. m \<in> set V) (memory d)) = set V" using sub by auto
  moreover have "distinct (filter (\<lambda>m. m \<in> set V) (memory d))" using dm by simp
  ultimately have len: "length (filter (\<lambda>m. m \<in> set V) (memory d)) = n"
    using dV lenV by (metis distinct_card)
  show "snd (delete_memory d (\<lambda>m. mem_id m \<in> set (cap_victims d n))) = n"
    by (simp add: delete_memory_def Let_def f1 len)
  from sum_length_filter_compl [of "\<lambda>m. m \<in> set V" "memory d"] len
  show "length (filter (\<lambda>m. m \<notin> set V) (memory d)) = length (memory d) - n"
    by simp
qed

text \<open>
  C8. With a cap that is not positive, or a store within its cap, \<^verbatim>\<open>enforceMaxMemories\<close>
  deletes nothing. With a positive cap below the number of memories (identifiers are the
  primary key) it deletes exactly the excess: the first rows in the order of
  \<^verbatim>\<open>access_count\<close>, then \<^verbatim>\<open>time_created\<close>, both ascending. Exactly cap memories remain; every
  retained memory has an access count at least that of every deleted one, and among equal
  counts is at least as new. \<^verbatim>\<open>runMaintenance\<close> leaves these memories and reports the count.
\<close>

theorem enforceMaxMemories_cap:
  assumes dist: "distinct (map mem_id (memory d))"
    and run: "enforceMaxMemories maxMemories d = (d', n)"
  shows "(maxMemories \<le> 0 \<or> int (length (memory d)) \<le> maxMemories \<longrightarrow> d' = d \<and> n = 0)
     \<and> (0 < maxMemories \<and> maxMemories < int (length (memory d)) \<longrightarrow>
           int n = int (length (memory d)) - maxMemories
         \<and> int (length (memory d')) = maxMemories
         \<and> memory d' = filter (\<lambda>m. m \<notin> set (take n
               (sort_key (\<lambda>m. (access_count m, time_created m)) (memory d)))) (memory d)
         \<and> (\<forall>r \<in> set (memory d'). \<forall>x \<in> set (memory d) - set (memory d').
               access_count x \<le> access_count r
               \<and> (access_count x = access_count r \<longrightarrow> time_created x \<le> time_created r)))
     \<and> memory (fst (runMaintenance maxMemories optimized bytes stamp d)) = memory d'
     \<and> memoriesTrimmed (snd (runMaintenance maxMemories optimized bytes stamp d)) = n"
proof (intro conjI impI)
  assume "maxMemories \<le> 0 \<or> int (length (memory d)) \<le> maxMemories"
  with run have "(d', n) = (d, 0)"
    by (cases "maxMemories \<le> 0") (simp_all add: enforceMaxMemories_def Let_def)
  then show "d' = d" "n = 0" by simp_all
next
  show "memory (fst (runMaintenance maxMemories optimized bytes stamp d)) = memory d'"
    and "memoriesTrimmed (snd (runMaintenance maxMemories optimized bytes stamp d)) = n"
    using run by (simp_all add: runMaintenance_def setMetadata_def)
next
  assume over: "0 < maxMemories \<and> maxMemories < int (length (memory d))"
  define e where "e = nat (int (length (memory d)) - maxMemories)"
  let ?S = "sort_key (\<lambda>m. (access_count m, time_created m)) (memory d)"
  from over have e: "e \<le> length (memory d)" "int e = int (length (memory d)) - maxMemories"
    by (simp_all add: e_def nat_le_iff)
  from run over have del: "delete_memory d (\<lambda>m. mem_id m \<in> set (cap_victims d e)) = (d', n)"
    by (simp add: enforceMaxMemories_def Let_def e_def)
  from delete_victims(2) [OF dist e(1)] del have n: "n = e" by simp
  from delete_victims(1) [OF dist e(1)] del
  have mem: "memory d' = filter (\<lambda>m. m \<notin> set (take n ?S)) (memory d)"
    by (simp add: n)
  from e n show "int n = int (length (memory d)) - maxMemories" by simp
  from delete_victims(3) [OF dist e(1)] mem n e
  show "int (length (memory d')) = maxMemories" by simp
  from mem show "memory d' = filter (\<lambda>m. m \<notin> set (take n ?S)) (memory d)" .
  show "\<forall>r \<in> set (memory d'). \<forall>x \<in> set (memory d) - set (memory d').
               access_count x \<le> access_count r
               \<and> (access_count x = access_count r \<longrightarrow> time_created x \<le> time_created r)"
  proof (intro ballI)
    fix r x
    assume r: "r \<in> set (memory d')" and x: "x \<in> set (memory d) - set (memory d')"
    from r have "r \<in> set ?S" "r \<notin> set (take n ?S)" by (simp_all add: mem)
    then have rd: "r \<in> set (drop n ?S)"
      by (metis Un_iff append_take_drop_id set_append)
    from x have xt: "x \<in> set (take n ?S)" by (auto simp: mem)
    from cap_order_split [OF xt rd]
    have "(access_count x, time_created x) \<le> (access_count r, time_created r)" .
    then show "access_count x \<le> access_count r
               \<and> (access_count x = access_count r \<longrightarrow> time_created x \<le> time_created r)"
      by (auto simp: less_eq_prod_def)
  qed
qed

lemma cap_db_trim:
  "enforceMaxMemories 3 cap_db =
     (\<lparr>memory = [sample_memory ''m2'' ''second'' None 20 2,
                 sample_memory ''m4'' ''fourth'' None 40 1,
                 sample_memory ''m5'' ''fifth'' None 50 5],
       memory_tags = [],
       memory_links = [],
       memory_fts = map fts_of
                [sample_memory ''m2'' ''second'' None 20 2,
                 sample_memory ''m4'' ''fourth'' None 40 1,
                 sample_memory ''m5'' ''fifth'' None 50 5],
       metadata = []\<rparr>, 2)"
  by (simp add: enforceMaxMemories_def cap_victims_def delete_memory_def cap_db_def
        sample_memory_def fts_of_def Let_def less_eq_prod_def)

theorem enforceMaxMemories_cap_witness:
  "distinct (map mem_id (memory cap_db))
   \<and> 0 < (3::int) \<and> 3 < int (length (memory cap_db))
   \<and> snd (enforceMaxMemories 3 cap_db) = 2
   \<and> int (length (memory (fst (enforceMaxMemories 3 cap_db)))) = 3
   \<and> map mem_id (memory (fst (enforceMaxMemories 3 cap_db))) = [''m2'', ''m4'', ''m5'']"
proof -
  have dist: "distinct (map mem_id (memory cap_db))"
    by (simp add: cap_db_def sample_memory_def)
  have over: "0 < (3::int) \<and> 3 < int (length (memory cap_db))"
    by (simp add: cap_db_def)
  have run: "enforceMaxMemories 3 cap_db
      = (fst (enforceMaxMemories 3 cap_db), snd (enforceMaxMemories 3 cap_db))"
    by simp
  note inst = enforceMaxMemories_cap [OF dist run, of True 4096 "''1700000000''"]
  from inst [THEN conjunct2, THEN conjunct1, THEN mp, OF over]
  have "int (snd (enforceMaxMemories 3 cap_db)) = int (length (memory cap_db)) - 3"
    and "int (length (memory (fst (enforceMaxMemories 3 cap_db)))) = 3"
    by blast+
  moreover have "map mem_id (memory (fst (enforceMaxMemories 3 cap_db))) = [''m2'', ''m4'', ''m5'']"
    by (simp add: cap_db_trim sample_memory_def)
  moreover have "snd (enforceMaxMemories 3 cap_db) = 2"
    by (simp add: cap_db_trim)
  ultimately show ?thesis using dist over by blast
qed

subsection \<open>File freshness\<close>

lemma set_sql_limit: "set (sql_limit n xs) \<subseteq> set xs"
  by (auto simp: sql_limit_def dest: in_set_takeD)

lemma sort_key_head:
  assumes "sort_key f xs = y # ys"
  shows "y \<in> set xs \<and> (\<forall>x \<in> set xs. f y \<le> f x)"
proof -
  have "set (y # ys) = set xs" using assms set_sort [of f xs] by simp
  moreover have "sorted (map f (y # ys))" using assms sorted_sort_key [of f xs] by simp
  ultimately show ?thesis by auto
qed

lemma sort_key_Nil: "sort_key f xs = [] \<longleftrightarrow> xs = []"
  by (metis length_sort length_0_conv)

lemma tagged_rows_set:
  "set (case truthy (Some p) of
          None \<Rightarrow>
            concat (map (\<lambda>r. filter (\<lambda>m. mem_id m = memory_id r) (memory d))
              (filter (\<lambda>r. tag r = trim (toLowerCase tg)) (memory_tags d)))
        | Some p \<Rightarrow>
            concat (map (\<lambda>m. map (\<lambda>r. m)
                (filter (\<lambda>r. memory_id r = mem_id m \<and> tag r = trim (toLowerCase tg))
                   (memory_tags d)))
              (filter (\<lambda>m. project_id m = Some p) (memory d))))
   = set (filter (\<lambda>m. (p = [] \<or> project_id m = Some p)
                \<and> list_ex (\<lambda>r. memory_id r = mem_id m \<and> tag r = trim (toLowerCase tg))
                     (memory_tags d))
       (memory d))"
proof (cases "p = []")
  case True
  then show ?thesis
    by (auto simp: truthy_def list_ex_iff)
next
  case False
  then show ?thesis
    by (auto simp: truthy_def list_ex_iff)
qed

lemma searchByTag_first:
  "searchByTag d tg (Some p) (Some 1) =
     take 1 (sorter_time_created_desc
       (case truthy (Some p) of
          None \<Rightarrow>
            concat (map (\<lambda>r. filter (\<lambda>m. mem_id m = memory_id r) (memory d))
              (filter (\<lambda>r. tag r = trim (toLowerCase tg)) (memory_tags d)))
        | Some p \<Rightarrow>
            concat (map (\<lambda>m. map (\<lambda>r. m)
                (filter (\<lambda>r. memory_id r = mem_id m \<and> tag r = trim (toLowerCase tg))
                   (memory_tags d)))
              (filter (\<lambda>m. project_id m = Some p) (memory d)))))"
  by (simp add: searchByTag_def sql_limit_def)

lemma searchByTag_none:
  "searchByTag d tg (Some p) (Some 1) = [] \<longleftrightarrow>
     filter (\<lambda>m. (p = [] \<or> project_id m = Some p)
                \<and> list_ex (\<lambda>r. memory_id r = mem_id m \<and> tag r = trim (toLowerCase tg))
                     (memory_tags d))
       (memory d) = []"
proof -
  define rows where "rows = (case truthy (Some p) of
          None \<Rightarrow>
            concat (map (\<lambda>r. filter (\<lambda>m. mem_id m = memory_id r) (memory d))
              (filter (\<lambda>r. tag r = trim (toLowerCase tg)) (memory_tags d)))
        | Some p \<Rightarrow>
            concat (map (\<lambda>m. map (\<lambda>r. m)
                (filter (\<lambda>r. memory_id r = mem_id m \<and> tag r = trim (toLowerCase tg))
                   (memory_tags d)))
              (filter (\<lambda>m. project_id m = Some p) (memory d))))"
  define found where "found = filter (\<lambda>m. (p = [] \<or> project_id m = Some p)
                \<and> list_ex (\<lambda>r. memory_id r = mem_id m \<and> tag r = trim (toLowerCase tg))
                     (memory_tags d))
       (memory d)"
  have s: "set rows = set found"
    unfolding rows_def found_def by (rule tagged_rows_set)
  have "searchByTag d tg (Some p) (Some 1) = take 1 (sorter_time_created_desc rows)"
    unfolding rows_def by (rule searchByTag_first)
  then have "searchByTag d tg (Some p) (Some 1) = [] \<longleftrightarrow> rows = []"
    by (simp add: sorter_time_created_desc_def sort_key_Nil)
  also have "\<dots> \<longleftrightarrow> set rows = {}" by simp
  also have "\<dots> \<longleftrightarrow> found = []" by (simp only: s set_empty)
  finally show ?thesis unfolding found_def .
qed

lemma searchByTag_newest:
  assumes "searchByTag d tg (Some p) (Some 1) = m # rest"
  shows "m \<in> set (filter (\<lambda>m. (p = [] \<or> project_id m = Some p)
                \<and> list_ex (\<lambda>r. memory_id r = mem_id m \<and> tag r = trim (toLowerCase tg))
                     (memory_tags d))
       (memory d))
       \<and> (\<forall>x \<in> set (filter (\<lambda>m. (p = [] \<or> project_id m = Some p)
                \<and> list_ex (\<lambda>r. memory_id r = mem_id m \<and> tag r = trim (toLowerCase tg))
                     (memory_tags d))
       (memory d)). time_created x \<le> time_created m)"
proof -
  define rows where "rows = (case truthy (Some p) of
          None \<Rightarrow>
            concat (map (\<lambda>r. filter (\<lambda>m. mem_id m = memory_id r) (memory d))
              (filter (\<lambda>r. tag r = trim (toLowerCase tg)) (memory_tags d)))
        | Some p \<Rightarrow>
            concat (map (\<lambda>m. map (\<lambda>r. m)
                (filter (\<lambda>r. memory_id r = mem_id m \<and> tag r = trim (toLowerCase tg))
                   (memory_tags d)))
              (filter (\<lambda>m. project_id m = Some p) (memory d))))"
  define found where "found = filter (\<lambda>m. (p = [] \<or> project_id m = Some p)
                \<and> list_ex (\<lambda>r. memory_id r = mem_id m \<and> tag r = trim (toLowerCase tg))
                     (memory_tags d))
       (memory d)"
  have s: "set rows = set found"
    unfolding rows_def found_def by (rule tagged_rows_set)
  have "searchByTag d tg (Some p) (Some 1) = take 1 (sorter_time_created_desc rows)"
    unfolding rows_def by (rule searchByTag_first)
  with assms have "take 1 (sort_key (\<lambda>m. - time_created m) rows) = m # rest"
    by (simp add: sorter_time_created_desc_def)
  then obtain ys where "sort_key (\<lambda>m. - time_created m) rows = m # ys"
    by (cases "sort_key (\<lambda>m. - time_created m) rows") auto
  from sort_key_head [OF this] have "m \<in> set found \<and> (\<forall>x \<in> set found. time_created x \<le> time_created m)"
    by (simp add: s)
  then show ?thesis unfolding found_def .
qed

lemma stored_fingerprint_snoc:
  "stored_fingerprint parseFloat (ts @ [t]) =
     (if take 4 t = ''git:'' then Some (drop 4 t) else fst (stored_fingerprint parseFloat ts),
      if take 6 t = ''mtime:'' then Some (parseFloat (drop 6 t))
      else snd (stored_fingerprint parseFloat ts))"
  by (simp add: stored_fingerprint_def split_beta)

lemma stored_fingerprint_last:
  "stored_fingerprint parseFloat ts =
     (if filter (\<lambda>t. take 4 t = ''git:'') ts = [] then None
      else Some (drop 4 (last (filter (\<lambda>t. take 4 t = ''git:'') ts))),
      if filter (\<lambda>t. take 6 t = ''mtime:'') ts = [] then None
      else Some (parseFloat (drop 6 (last (filter (\<lambda>t. take 6 t = ''mtime:'') ts)))))"
proof (induction ts rule: rev_induct)
  case Nil
  show ?case by (simp add: stored_fingerprint_def)
next
  case (snoc t ts)
  show ?case
    unfolding stored_fingerprint_snoc snoc.IH by simp
qed

lemma sorted_last_Max:
  fixes xs :: "'a::linorder list"
  assumes "sorted xs" and "xs \<noteq> []"
  shows "last xs = Max (set xs)"
proof -
  have "\<forall>x \<in> set xs. x \<le> last xs"
    using assms
  proof (induction xs)
    case Nil
    then show ?case by simp
  next
    case (Cons a xs)
    then show ?case by (cases "xs = []") auto
  qed
  moreover have "last xs \<in> set xs" using assms(2) by simp
  ultimately show ?thesis
    by (intro Max_eqI [symmetric]) auto
qed

lemma last_filter_sort:
  fixes xs :: "'a::linorder list"
  assumes "filter P xs = t # ts"
  shows "filter P (sort xs) \<noteq> [] \<and> last (filter P (sort xs)) = fold max ts t"
proof -
  have s: "set (filter P (sort xs)) = set (t # ts)"
    using assms by (metis set_filter set_sort list.map_ident)
  have ne: "filter P (sort xs) \<noteq> []"
  proof
    assume "filter P (sort xs) = []"
    then have "set (filter P (sort xs)) = {}" by (simp only: set_empty)
    with s show False by simp
  qed
  have "sorted (filter P (sort xs))"
    using sorted_filter [of "\<lambda>x. x" "sort xs" P] by simp
  from sorted_last_Max [OF this ne] have "last (filter P (sort xs)) = Max (set (t # ts))"
    by (simp only: s)
  also have "\<dots> = fold max ts t" by (rule Max.set_eq_fold)
  finally show ?thesis using ne by simp
qed

lemma filter_sort_Nil:
  fixes xs :: "'a::linorder list"
  shows "filter P (sort xs) = [] \<longleftrightarrow> filter P xs = []"
  by (simp add: filter_empty_conv)

lemma last_tag_git:
  "last_tag ''git:'' d i =
     (case filter (\<lambda>t. take 4 t = ''git:'')
             (map tag (filter (\<lambda>r. memory_id r = i) (memory_tags d))) of
        [] \<Rightarrow> None
      | t # ts \<Rightarrow> Some (drop 4 (fold max ts t)))"
proof -
  have l: "length ''git:'' = 4" by simp
  show ?thesis by (simp only: last_tag_def l)
qed

lemma last_tag_mtime:
  "last_tag ''mtime:'' d i =
     (case filter (\<lambda>t. take 6 t = ''mtime:'')
             (map tag (filter (\<lambda>r. memory_id r = i) (memory_tags d))) of
        [] \<Rightarrow> None
      | t # ts \<Rightarrow> Some (drop 6 (fold max ts t)))"
proof -
  have l: "length ''mtime:'' = 6" by simp
  show ?thesis by (simp only: last_tag_def l)
qed

lemma stored_fingerprint_tags:
  "stored_fingerprint parseFloat (getTagsForMemory d i)
     = (last_tag ''git:'' d i, map_option parseFloat (last_tag ''mtime:'' d i))"
proof -
  define raw where "raw = map tag (filter (\<lambda>r. memory_id r = i) (memory_tags d))"
  have tags: "getTagsForMemory d i = sort raw" by (simp add: getTagsForMemory_def raw_def)
  have g: "(if filter (\<lambda>t. take 4 t = ''git:'') (sort raw) = [] then None
            else Some (drop 4 (last (filter (\<lambda>t. take 4 t = ''git:'') (sort raw)))))
           = last_tag ''git:'' d i"
  proof (cases "filter (\<lambda>t. take 4 t = ''git:'') raw")
    case Nil
    then show ?thesis
      unfolding last_tag_git raw_def [symmetric] by (simp add: filter_sort_Nil)
  next
    case (Cons t ts)
    from last_filter_sort [OF this] Cons show ?thesis
      unfolding last_tag_git raw_def [symmetric] by simp
  qed
  have m: "(if filter (\<lambda>t. take 6 t = ''mtime:'') (sort raw) = [] then None
            else Some (parseFloat (drop 6 (last (filter (\<lambda>t. take 6 t = ''mtime:'') (sort raw))))))
           = map_option parseFloat (last_tag ''mtime:'' d i)"
  proof (cases "filter (\<lambda>t. take 6 t = ''mtime:'') raw")
    case Nil
    then show ?thesis
      unfolding last_tag_mtime raw_def [symmetric] by (simp add: filter_sort_Nil)
  next
    case (Cons t ts)
    from last_filter_sort [OF this] Cons show ?thesis
      unfolding last_tag_mtime raw_def [symmetric] by simp
  qed
  show ?thesis
    unfolding tags stored_fingerprint_last g m ..
qed

text \<open>
  C9. \<^verbatim>\<open>checkFileFreshness\<close> returns nothing when the database is unavailable, and when no
  memory carries the \<^verbatim>\<open>filepath:\<close> tag of the path. It returns nothing exactly when no memory
  of the project carries that tag (no memory at all, when the project is not named): a memory
  of another project, or of none, does not count. Otherwise the result carries a newest of
  these memories and its content. With the stored hash and the stored modification time read
  from the \<^verbatim>\<open>git:\<close> and \<^verbatim>\<open>mtime:\<close> tags of that memory, the result is fresh exactly when the
  current and the stored hash are both present (not empty) and equal, or they are not both
  present, the current modification time is known (positive), the stored one parses to a
  number, and the two differ by less than 1000 milliseconds. In every other case it is stale.
\<close>

theorem checkFileFreshness_result:
  "checkFileFreshness False parseFloat d path p cur = None
   \<and> (\<not> list_ex (\<lambda>r. tag r = trim (toLowerCase (''filepath:'' @ path))) (memory_tags d)
        \<longrightarrow> checkFileFreshness True parseFloat d path p cur = None)
   \<and> (checkFileFreshness True parseFloat d path p cur = None
        \<longleftrightarrow> file_memories d path p = [])
   \<and> (\<forall>f. checkFileFreshness True parseFloat d path p cur = Some f \<longrightarrow>
          fresh_memory f \<in> set (file_memories d path p)
        \<and> (\<forall>m \<in> set (file_memories d path p). time_created m \<le> time_created (fresh_memory f))
        \<and> storedContent f = content (fresh_memory f)
        \<and> (let storedGitHash = last_tag ''git:'' d (mem_id (fresh_memory f));
                storedMtime = last_tag ''mtime:'' d (mem_id (fresh_memory f));
                both = (truthy (gitHash cur) \<noteq> None \<and> truthy storedGitHash \<noteq> None)
            in fresh f \<longleftrightarrow>
                 (both \<and> gitHash cur = storedGitHash)
               \<or> (\<not> both \<and> mtime cur > 0
                   \<and> (\<exists>t v. storedMtime = Some t \<and> parseFloat t = Num v
                             \<and> \<bar>mtime cur - v\<bar> < 1000))))"
proof (intro conjI allI impI)
  show "checkFileFreshness False parseFloat d path p cur = None"
    by (simp add: checkFileFreshness_def)
next
  show none: "checkFileFreshness True parseFloat d path p cur = None
        \<longleftrightarrow> file_memories d path p = []"
  proof -
    have "checkFileFreshness True parseFloat d path p cur = None
        \<longleftrightarrow> searchByTag d (''filepath:'' @ path) (Some p) (Some 1) = []"
      by (simp add: checkFileFreshness_def split_beta Let_def split: list.splits)
    then show ?thesis
      unfolding file_memories_def searchByTag_none .
  qed
  assume no: "\<not> list_ex (\<lambda>r. tag r = trim (toLowerCase (''filepath:'' @ path))) (memory_tags d)"
  have "file_memories d path p = []"
    unfolding file_memories_def filter_empty_conv
  proof (intro ballI notI)
    fix m
    assume "(p = [] \<or> project_id m = Some p)
            \<and> list_ex (\<lambda>r. memory_id r = mem_id m
                          \<and> tag r = trim (toLowerCase (''filepath:'' @ path))) (memory_tags d)"
    then have "list_ex (\<lambda>r. tag r = trim (toLowerCase (''filepath:'' @ path))) (memory_tags d)"
      unfolding list_ex_iff by blast
    with no show False ..
  qed
  with none show "checkFileFreshness True parseFloat d path p cur = None" by (simp only:)
next
  fix f
  assume res: "checkFileFreshness True parseFloat d path p cur = Some f"
  then obtain m rest where found: "searchByTag d (''filepath:'' @ path) (Some p) (Some 1) = m # rest"
    by (cases "searchByTag d (''filepath:'' @ path) (Some p) (Some 1)")
       (simp_all add: checkFileFreshness_def)
  define storedGitHash where "storedGitHash = last_tag ''git:'' d (mem_id m)"
  define storedMtime where "storedMtime = last_tag ''mtime:'' d (mem_id m)"
  define both where "both = (truthy (gitHash cur) \<noteq> None \<and> truthy storedGitHash \<noteq> None)"
  have "(if both then Some \<lparr>fresh = (gitHash cur = storedGitHash), fresh_memory = m,
                              storedContent = content m\<rparr>
         else if map_option parseFloat storedMtime \<noteq> None \<and> mtime cur > 0
           then Some \<lparr>fresh = (case map_option parseFloat storedMtime of None \<Rightarrow> False
                                | Some v \<Rightarrow> within_tolerance (mtime cur) v),
                      fresh_memory = m, storedContent = content m\<rparr>
           else Some \<lparr>fresh = False, fresh_memory = m, storedContent = content m\<rparr>) = Some f"
    using res
    unfolding checkFileFreshness_def found stored_fingerprint_tags both_def storedGitHash_def
      storedMtime_def
    by (simp only: not_True_eq_False if_False list.case case_prod_beta Let_def fst_conv snd_conv
          prod.case)
  then have f: "f = \<lparr>fresh = (if both then gitHash cur = storedGitHash
                        else if map_option parseFloat storedMtime \<noteq> None \<and> mtime cur > 0
                        then (case map_option parseFloat storedMtime of None \<Rightarrow> False
                              | Some v \<Rightarrow> within_tolerance (mtime cur) v)
                        else False),
                fresh_memory = m, storedContent = content m\<rparr>"
    by (auto split: if_splits)
  have fm: "fresh_memory f = m" by (simp add: f)
  from searchByTag_newest [OF found]
  show "fresh_memory f \<in> set (file_memories d path p)"
    unfolding file_memories_def fm by (rule conjunct1)
  from searchByTag_newest [OF found]
  have "\<forall>x \<in> set (file_memories d path p). time_created x \<le> time_created m"
    unfolding file_memories_def by (rule conjunct2)
  then show "\<forall>m \<in> set (file_memories d path p). time_created m \<le> time_created (fresh_memory f)"
    unfolding fm .
  show "storedContent f = content (fresh_memory f)" by (simp add: f)
  have tol: "within_tolerance (mtime cur) x \<longleftrightarrow> (\<exists>v. x = Num v \<and> \<bar>mtime cur - v\<bar> < 1000)" for x
    by (cases x) (simp_all add: within_tolerance_def)
  have "fresh f \<longleftrightarrow>
                 (both \<and> gitHash cur = storedGitHash)
               \<or> (\<not> both \<and> mtime cur > 0
                   \<and> (\<exists>t v. storedMtime = Some t \<and> parseFloat t = Num v
                             \<and> \<bar>mtime cur - v\<bar> < 1000))"
    by (cases storedMtime) (auto simp: f tol)
  then show "(let storedGitHash = last_tag ''git:'' d (mem_id (fresh_memory f));
                storedMtime = last_tag ''mtime:'' d (mem_id (fresh_memory f));
                both = (truthy (gitHash cur) \<noteq> None \<and> truthy storedGitHash \<noteq> None)
            in fresh f \<longleftrightarrow>
                 (both \<and> gitHash cur = storedGitHash)
               \<or> (\<not> both \<and> mtime cur > 0
                   \<and> (\<exists>t v. storedMtime = Some t \<and> parseFloat t = Num v
                             \<and> \<bar>mtime cur - v\<bar> < 1000)))"
    unfolding Let_def fm both_def storedGitHash_def storedMtime_def .
qed

lemma git_db_file_memories:
  "file_memories git_db ''/tmp/y.md'' ''p1''
     = [sample_memory ''g0'' ''# stale'' (Some ''p1'') 5 0,
        sample_memory ''g1'' ''# current'' (Some ''p1'') 10 0]"
  by code_simp

lemma git_db_stored:
  "last_tag ''git:'' git_db ''g1'' = Some ''b2''
   \<and> last_tag ''mtime:'' git_db ''g1'' = Some ''1700000000000''"
  by code_simp

lemma file_db_file_memories:
  "file_memories file_db ''/tmp/x.md'' ''p1''
     = [(sample_memory ''f1'' ''# notes'' (Some ''p1'') 10 0)\<lparr>category := ''discovery''\<rparr>]"
  by code_simp

lemma file_db_stored:
  "last_tag ''git:'' file_db ''f1'' = Some []
   \<and> last_tag ''mtime:'' file_db ''f1'' = Some ''1700000000000''"
  by code_simp

lemma sample_db_no_file_tag:
  "\<not> list_ex (\<lambda>r. tag r = trim (toLowerCase (''filepath:'' @ ''/tmp/x.md'')))
        (memory_tags sample_db)"
  by code_simp

theorem checkFileFreshness_result_witness:
  "checkFileFreshness True sample_parseFloat sample_db ''/tmp/x.md'' ''p1''
     \<lparr>gitHash = None, mtime = 1700000000500\<rparr> = None
   \<and> (\<exists>f. checkFileFreshness True sample_parseFloat git_db ''/tmp/y.md'' ''p1''
            \<lparr>gitHash = Some ''b2'', mtime = 0\<rparr> = Some f
          \<and> fresh f \<and> mem_id (fresh_memory f) = ''g1'' \<and> storedContent f = ''# current'')
   \<and> (\<exists>f. checkFileFreshness True sample_parseFloat git_db ''/tmp/y.md'' ''p1''
            \<lparr>gitHash = Some ''a1'', mtime = 1700000000000\<rparr> = Some f
          \<and> \<not> fresh f \<and> mem_id (fresh_memory f) = ''g1'' \<and> storedContent f = ''# current'')
   \<and> (\<exists>f. checkFileFreshness True sample_parseFloat file_db ''/tmp/x.md'' ''p1''
            \<lparr>gitHash = Some ''b2'', mtime = 1700000000500\<rparr> = Some f
          \<and> fresh f \<and> storedContent f = ''# notes'')
   \<and> (\<exists>f. checkFileFreshness True sample_parseFloat file_db ''/tmp/x.md'' ''p1''
            \<lparr>gitHash = None, mtime = 1700000002000\<rparr> = Some f
          \<and> \<not> fresh f \<and> storedContent f = ''# notes'')"
proof (intro conjI)
  show "checkFileFreshness True sample_parseFloat sample_db ''/tmp/x.md'' ''p1''
     \<lparr>gitHash = None, mtime = 1700000000500\<rparr> = None"
    by (rule checkFileFreshness_result [THEN conjunct2, THEN conjunct1, THEN mp,
          OF sample_db_no_file_tag])
next
  let ?g0 = "sample_memory ''g0'' ''# stale'' (Some ''p1'') 5 0"
  let ?g1 = "sample_memory ''g1'' ''# current'' (Some ''p1'') 10 0"
  have newest: "m = ?g1"
    if "m \<in> set [?g0, ?g1]" and "\<forall>x \<in> set [?g0, ?g1]. time_created x \<le> time_created m" for m
    using that by (auto simp: sample_memory_def)
  have g1: "mem_id ?g1 = ''g1''" "content ?g1 = ''# current''"
    by (simp_all add: sample_memory_def)
  have pf: "sample_parseFloat ''1700000000000'' = Num 1700000000000"
    by (simp add: sample_parseFloat_def)
  {
    fix cur :: fingerprint
    note inst = checkFileFreshness_result [of sample_parseFloat git_db "''/tmp/y.md''" "''p1''" cur]
    from inst [THEN conjunct2, THEN conjunct2, THEN conjunct1]
    have "checkFileFreshness True sample_parseFloat git_db ''/tmp/y.md'' ''p1'' cur \<noteq> None"
      by (simp add: git_db_file_memories)
    then obtain f where f: "checkFileFreshness True sample_parseFloat git_db ''/tmp/y.md'' ''p1'' cur
        = Some f"
      by auto
    note props = inst [THEN conjunct2, THEN conjunct2, THEN conjunct2, THEN spec, THEN mp, OF f]
    from props [THEN conjunct1] props [THEN conjunct2, THEN conjunct1]
    have "fresh_memory f \<in> set [?g0, ?g1]"
      and "\<forall>x \<in> set [?g0, ?g1]. time_created x \<le> time_created (fresh_memory f)"
      unfolding git_db_file_memories .
    then have m: "fresh_memory f = ?g1" by (rule newest)
    from props [THEN conjunct2, THEN conjunct2, THEN conjunct1]
    have sc: "storedContent f = ''# current''" by (simp only: m g1)
    from props [THEN conjunct2, THEN conjunct2, THEN conjunct2] have fr: "fresh f \<longleftrightarrow>
        (truthy (gitHash cur) \<noteq> None \<and> gitHash cur = Some ''b2'')
        \<or> (truthy (gitHash cur) = None \<and> mtime cur > 0 \<and> \<bar>mtime cur - 1700000000000\<bar> < 1000)"
      by (simp add: m g1 git_db_stored pf Let_def truthy_def)
    from f m sc fr
    have "\<exists>f. checkFileFreshness True sample_parseFloat git_db ''/tmp/y.md'' ''p1'' cur = Some f
          \<and> (fresh f \<longleftrightarrow>
                (truthy (gitHash cur) \<noteq> None \<and> gitHash cur = Some ''b2'')
              \<or> (truthy (gitHash cur) = None \<and> mtime cur > 0
                  \<and> \<bar>mtime cur - 1700000000000\<bar> < 1000))
          \<and> mem_id (fresh_memory f) = ''g1'' \<and> storedContent f = ''# current''"
      by (simp add: g1)
  }
  note by_hash = this
  from by_hash [of "\<lparr>gitHash = Some ''b2'', mtime = 0\<rparr>"]
  show "\<exists>f. checkFileFreshness True sample_parseFloat git_db ''/tmp/y.md'' ''p1''
            \<lparr>gitHash = Some ''b2'', mtime = 0\<rparr> = Some f
          \<and> fresh f \<and> mem_id (fresh_memory f) = ''g1'' \<and> storedContent f = ''# current''"
    by (simp add: truthy_def)
  from by_hash [of "\<lparr>gitHash = Some ''a1'', mtime = 1700000000000\<rparr>"]
  show "\<exists>f. checkFileFreshness True sample_parseFloat git_db ''/tmp/y.md'' ''p1''
            \<lparr>gitHash = Some ''a1'', mtime = 1700000000000\<rparr> = Some f
          \<and> \<not> fresh f \<and> mem_id (fresh_memory f) = ''g1'' \<and> storedContent f = ''# current''"
    by (simp add: truthy_def)
next
  let ?f1 = "(sample_memory ''f1'' ''# notes'' (Some ''p1'') 10 0)\<lparr>category := ''discovery''\<rparr>"
  have f1: "mem_id ?f1 = ''f1''" "content ?f1 = ''# notes''"
    by (simp_all add: sample_memory_def)
  have pf: "sample_parseFloat ''1700000000000'' = Num 1700000000000"
    by (simp add: sample_parseFloat_def)
  {
    fix cur :: fingerprint
    note inst = checkFileFreshness_result [of sample_parseFloat file_db "''/tmp/x.md''" "''p1''" cur]
    from inst [THEN conjunct2, THEN conjunct2, THEN conjunct1]
    have "checkFileFreshness True sample_parseFloat file_db ''/tmp/x.md'' ''p1'' cur \<noteq> None"
      by (simp add: file_db_file_memories)
    then obtain f where f: "checkFileFreshness True sample_parseFloat file_db ''/tmp/x.md'' ''p1'' cur
        = Some f"
      by auto
    note props = inst [THEN conjunct2, THEN conjunct2, THEN conjunct2, THEN spec, THEN mp, OF f]
    from props [THEN conjunct1]
    have "fresh_memory f \<in> set [?f1]"
      unfolding file_db_file_memories .
    then have m: "fresh_memory f = ?f1" by simp
    from props [THEN conjunct2, THEN conjunct2, THEN conjunct1]
    have sc: "storedContent f = ''# notes''" by (simp only: m f1)
    from props [THEN conjunct2, THEN conjunct2, THEN conjunct2] have fr: "fresh f \<longleftrightarrow> mtime cur > 0 \<and> \<bar>mtime cur - 1700000000000\<bar> < 1000"
      by (simp add: m f1 file_db_stored pf Let_def truthy_def)
    from f sc fr
    have "\<exists>f. checkFileFreshness True sample_parseFloat file_db ''/tmp/x.md'' ''p1'' cur = Some f
          \<and> (fresh f \<longleftrightarrow> mtime cur > 0 \<and> \<bar>mtime cur - 1700000000000\<bar> < 1000)
          \<and> storedContent f = ''# notes''"
      by simp
  }
  note by_mtime = this
  from by_mtime [of "\<lparr>gitHash = Some ''b2'', mtime = 1700000000500\<rparr>"]
  show "\<exists>f. checkFileFreshness True sample_parseFloat file_db ''/tmp/x.md'' ''p1''
            \<lparr>gitHash = Some ''b2'', mtime = 1700000000500\<rparr> = Some f
          \<and> fresh f \<and> storedContent f = ''# notes''"
    by simp
  from by_mtime [of "\<lparr>gitHash = None, mtime = 1700000002000\<rparr>"]
  show "\<exists>f. checkFileFreshness True sample_parseFloat file_db ''/tmp/x.md'' ''p1''
            \<lparr>gitHash = None, mtime = 1700000002000\<rparr> = Some f
          \<and> \<not> fresh f \<and> storedContent f = ''# notes''"
    by simp
qed

text \<open>
  C9 as stated fails when the tag is carried by memories of other projects alone: the lookup
  has the condition \<^verbatim>\<open>m.project_id = ?\<close>. In the store below three memories carry the tag of
  \<^verbatim>\<open>/tmp/y.md\<close>, two of project \<^verbatim>\<open>p1\<close> and one of project \<^verbatim>\<open>p2\<close>; for project \<^verbatim>\<open>p3\<close> the
  check returns nothing.
\<close>

theorem checkFileFreshness_other_project_counterexample:
  "trim (toLowerCase (''filepath:'' @ ''/tmp/y.md'')) = ''filepath:/tmp/y.md''
   \<and> map memory_id (filter (\<lambda>r. tag r = ''filepath:/tmp/y.md'') (memory_tags git_db))
       = [''g0'', ''g1'', ''g2'']
   \<and> checkFileFreshness True sample_parseFloat git_db ''/tmp/y.md'' ''p3''
       \<lparr>gitHash = Some ''b2'', mtime = 1700000000000\<rparr> = None"
proof (intro conjI)
  show "trim (toLowerCase (''filepath:'' @ ''/tmp/y.md'')) = ''filepath:/tmp/y.md''"
    by code_simp
  show "map memory_id (filter (\<lambda>r. tag r = ''filepath:/tmp/y.md'') (memory_tags git_db))
       = [''g0'', ''g1'', ''g2'']"
    by code_simp
  show "checkFileFreshness True sample_parseFloat git_db ''/tmp/y.md'' ''p3''
       \<lparr>gitHash = Some ''b2'', mtime = 1700000000000\<rparr> = None"
    by (simp add: checkFileFreshness_def searchByTag_def git_db_def sample_memory_def
          sorter_time_created_desc_def sql_limit_def truthy_def)
qed

subsection \<open>Deduplication on insert\<close>






lemma storeMemory_exact:
  assumes "trim (in_content input) \<noteq> []"
    and "length (in_content input) \<le> MAX_MEMORY_CONTENT_LENGTH"
    and "\<not> in_force input"
    and "find (\<lambda>m. normalizeText (content m) = normalizeText (in_content input))
           (dedup_candidates d (store_projectId input)) = Some m"
  shows "storeMemory fts d i now input = (d, Inr m)"
  using assms by (simp add: storeMemory_def Let_def findDuplicate_def)




lemma find_Some_set: "find P xs = Some x \<Longrightarrow> x \<in> set xs \<and> P x"
  by (induction xs) (auto split: if_splits)


lemma dedup_candidates_in_scope:
  "m \<in> set (dedup_candidates d projectId) \<Longrightarrow> in_scope projectId m"
proof (cases "truthy projectId")
  case None
  then show ?thesis by (simp add: in_scope_def)
next
  case (Some p)
  assume "m \<in> set (dedup_candidates d projectId)"
  then have "m \<in> set (sorter_time_created_desc (project_or_global d p))"
    using Some by (auto simp: dedup_candidates_def dest: in_set_takeD)
  then show ?thesis
    using Some by (auto simp: sorter_time_created_desc_def project_or_global_def in_scope_def)
qed





subsection \<open>Global inserts and deduplication\<close>

lemma find_unique:
  assumes "m \<in> set xs" and "P m" and "\<And>x. x \<in> set xs \<Longrightarrow> P x \<Longrightarrow> x = m"
  shows "find P xs = Some m"
proof -
  from assms(1,2) have "find P xs \<noteq> None" by (auto simp: find_None_iff)
  then obtain y where y: "find P xs = Some y" by auto
  then have "y \<in> set xs" "P y" by (auto simp: find_Some_iff)
  with assms(3) y show ?thesis by auto
qed

lemma in_scope_None: "in_scope None m"
  by (simp add: in_scope_def truthy_def)

lemma store_projectId_global:
  "in_global input \<or> truthy (in_projectId input) = None \<Longrightarrow> store_projectId input = None"
  by (auto simp: store_projectId_def)

lemma dedup_candidates_all:
  "dedup_candidates d None = take 100 (order_by_time_created_desc (memory d))"
  by (simp add: dedup_candidates_def truthy_def)

lemma fts_join_rows: "(m, r) \<in> set (fts_join d hits) \<Longrightarrow> m \<in> set (memory d)"
  by (auto simp: fts_join_def)

lemma getMemory_distinct:
  assumes "distinct (map mem_id (memory d))" and "m \<in> set (memory d)"
  shows "getMemory d (mem_id m) = Some m"
proof -
  from assms(1) have inj: "inj_on mem_id (set (memory d))" by (simp add: distinct_map)
  have "find (\<lambda>x. mem_id x = mem_id m) (memory d) = Some m"
    using assms(2)
  proof (rule find_unique)
    fix x assume "x \<in> set (memory d)" "mem_id x = mem_id m"
    with inj assms(2) show "x = m" by (auto dest: inj_onD)
  qed simp
  then show ?thesis by (simp add: getMemory_def)
qed

lemma length_update_memory: "length (memory (update_memory d i f)) = length (memory d)"
  by (simp add: update_memory_def Let_def)

lemma storeMemory_near:
  assumes valid: "trim (in_content input) \<noteq> []"
      "length (in_content input) \<le> MAX_MEMORY_CONTENT_LENGTH"
    and nf: "\<not> in_force input"
    and dup: "findDuplicate fts d (in_content input) (store_projectId input) = Some (Near m)"
    and row: "getMemory d (mem_id m) = Some m"
  shows "\<exists>d' m'. storeMemory fts d i now input = (d', Inr m')
            \<and> getMemory d' (mem_id m) = Some m'
            \<and> mem_id m' = mem_id m \<and> content m' = in_content input
            \<and> project_id m' = project_id m \<and> time_created m' = time_created m
            \<and> length (memory d') = length (memory d)"
proof -
  define patch where "patch = \<lparr>new_content = Some (in_content input),
                            new_category = Some (case truthy (in_category input) of
                                                   None \<Rightarrow> category m | Some c \<Rightarrow> c),
                            new_source = (case truthy (in_source input) of
                                            None \<Rightarrow> truthy (source m) | Some s \<Rightarrow> Some s)\<rparr>"
  define f :: "Memory \<Rightarrow> Memory" where "f = (\<lambda>m. m
                   \<lparr>content := (case new_content patch of None \<Rightarrow> content m | Some c \<Rightarrow> c),
                    category := (case new_category patch of None \<Rightarrow> category m | Some c \<Rightarrow> c),
                    source := (case new_source patch of None \<Rightarrow> source m | Some c \<Rightarrow> Some c),
                    time_updated := now\<rparr>)"
  have f: "\<And>x. mem_id (f x) = mem_id x" by (simp add: f_def)
  have upd: "updateMemory d (mem_id m) patch now
      = (update_memory d (mem_id m) f, getMemory (update_memory d (mem_id m) f) (mem_id m))"
    using row by (simp add: updateMemory_def Let_def f_def patch_def)
  have get: "getMemory (update_memory d (mem_id m) f) (mem_id m) = Some (f m)"
    using getMemory_update_memory [of f d "mem_id m" "mem_id m", OF f] row by simp
  have "storeMemory fts d i now input = (update_memory d (mem_id m) f, Inr (f m))"
    using valid nf dup upd get
    by (simp add: storeMemory_def Let_def patch_def)
  moreover have "content (f m) = in_content input" "project_id (f m) = project_id m"
    "time_created (f m) = time_created m"
    by (simp_all add: f_def patch_def)
  ultimately show ?thesis
    using get f [of m] length_update_memory [of d "mem_id m" f] by blast
qed

text \<open>
  C10. An insert that is global, or names no project, scans for duplicates with no project
  filter: its scope is empty and the candidates of the exact check are the 100 newest memories
  of all projects. So, unless forced, it is short-circuited by a memory of any project. When
  a stored memory (its project is arbitrary) is the only one with the normal form of the new
  content, among at most 100 memories, the insert returns that memory and writes nothing.
  When no candidate is an exact duplicate and the first of the five best full-text hits above
  the similarity threshold is a memory \<open>m\<close>, the new content is merged into \<open>m\<close>, which keeps
  its identifier and its project; no global memory is created.
\<close>

theorem global_insert_scans_all_projects:
  assumes glob: "in_global input \<or> truthy (in_projectId input) = None"
    and valid: "trim (in_content input) \<noteq> []"
      "length (in_content input) \<le> MAX_MEMORY_CONTENT_LENGTH"
    and nf: "\<not> in_force input"
    and dist: "distinct (map mem_id (memory d))"
  shows "store_projectId input = None
    \<and> dedup_candidates d (store_projectId input)
        = take 100 (order_by_time_created_desc (memory d))
    \<and> (\<forall>m. m \<in> set (memory d) \<and> length (memory d) \<le> 100
           \<and> normalizeText (content m) = normalizeText (in_content input)
           \<and> (\<forall>x \<in> set (memory d).
                  normalizeText (content x) = normalizeText (in_content input) \<longrightarrow> x = m)
         \<longrightarrow> storeMemory fts d i now input = (d, Inr m))
    \<and> (\<forall>m r q hits.
           find (\<lambda>x. normalizeText (content x) = normalizeText (in_content input))
             (take 100 (order_by_time_created_desc (memory d))) = None
           \<and> dedup_query (in_content input) = Some q
           \<and> fts (memory_fts d) q = Some hits
           \<and> find (\<lambda>(x, r). computeSimilarity (normalizeText (in_content input))
                               (normalizeText (content x)) > 6 / 10)
               (take 5 (sort_key snd (fts_join d hits))) = Some (m, r)
         \<longrightarrow> (\<exists>d' m'. storeMemory fts d i now input = (d', Inr m')
                \<and> getMemory d' (mem_id m) = Some m'
                \<and> mem_id m' = mem_id m \<and> content m' = in_content input
                \<and> project_id m' = project_id m
                \<and> length (memory d') = length (memory d)))"
proof (intro conjI allI impI)
  from glob show p: "store_projectId input = None" by (rule store_projectId_global)
  show "dedup_candidates d (store_projectId input)
        = take 100 (order_by_time_created_desc (memory d))"
    by (simp only: p dedup_candidates_all)
next
  fix m
  assume a: "m \<in> set (memory d) \<and> length (memory d) \<le> 100
           \<and> normalizeText (content m) = normalizeText (in_content input)
           \<and> (\<forall>x \<in> set (memory d).
                  normalizeText (content x) = normalizeText (in_content input) \<longrightarrow> x = m)"
  have p: "store_projectId input = None" using glob by (rule store_projectId_global)
  have cand: "dedup_candidates d (store_projectId input) = order_by_time_created_desc (memory d)"
    using a by (simp add: p dedup_candidates_all order_by_time_created_desc_def)
  have "find (\<lambda>x. normalizeText (content x) = normalizeText (in_content input))
          (order_by_time_created_desc (memory d)) = Some m"
    using a by (intro find_unique) (auto simp: order_by_time_created_desc_def)
  then show "storeMemory fts d i now input = (d, Inr m)"
    using valid nf by (intro storeMemory_exact) (simp_all add: cand)
next
  fix m r q hits
  assume a: "find (\<lambda>x. normalizeText (content x) = normalizeText (in_content input))
             (take 100 (order_by_time_created_desc (memory d))) = None
           \<and> dedup_query (in_content input) = Some q
           \<and> fts (memory_fts d) q = Some hits
           \<and> find (\<lambda>(x, r). computeSimilarity (normalizeText (in_content input))
                               (normalizeText (content x)) > 6 / 10)
               (take 5 (sort_key snd (fts_join d hits))) = Some (m, r)"
  have p: "store_projectId input = None" using glob by (rule store_projectId_global)
  have all: "filter (\<lambda>(x, r). in_scope None x) xs = xs" for xs :: "(Memory \<times> real) list"
    by (simp add: in_scope_None split_beta)
  have dup: "findDuplicate fts d (in_content input) (store_projectId input) = Some (Near m)"
    using a by (simp add: findDuplicate_def p dedup_candidates_all all Let_def)
  from a have "(m, r) \<in> set (take 5 (sort_key snd (fts_join d hits)))"
    by (blast dest: find_Some_set)
  then have "(m, r) \<in> set (fts_join d hits)"
    by (auto dest: in_set_takeD)
  then have "m \<in> set (memory d)" by (rule fts_join_rows)
  with dist have row: "getMemory d (mem_id m) = Some m" by (rule getMemory_distinct)
  from storeMemory_near [OF valid nf dup row, of i now]
  show "\<exists>d' m'. storeMemory fts d i now input = (d', Inr m')
                \<and> getMemory d' (mem_id m) = Some m'
                \<and> mem_id m' = mem_id m \<and> content m' = in_content input
                \<and> project_id m' = project_id m
                \<and> length (memory d') = length (memory d)"
    by blast
qed

lemma securely_valid:
  "trim securely \<noteq> [] \<and> length securely \<le> MAX_MEMORY_CONTENT_LENGTH"
  by code_simp

lemma reliably_valid:
  "trim reliably \<noteq> [] \<and> length reliably \<le> MAX_MEMORY_CONTENT_LENGTH"
  by code_simp

lemma reliably_not_exact: "normalizeText securely \<noteq> normalizeText reliably"
  by code_simp

lemma reliably_query:
  "dedup_query reliably = Some ''authentication OR requests OR reliably OR signing OR module''"
  by code_simp

lemma reliably_similar:
  "computeSimilarity (normalizeText reliably) (normalizeText securely) > 6 / 10"
  by code_simp

theorem global_insert_scans_all_projects_witness:
  "in_global (global_input securely)
   \<and> project_id (sample_memory ''m1'' securely (Some ''p1'') 10 0) = Some ''p1''
   \<and> storeMemory all_hits project_db ''new'' 50 (global_input securely)
       = (project_db, Inr (sample_memory ''m1'' securely (Some ''p1'') 10 0))
   \<and> (\<exists>d' m'. storeMemory all_hits project_db ''new'' 50 (global_input reliably) = (d', Inr m')
          \<and> mem_id m' = ''m1'' \<and> content m' = reliably \<and> project_id m' = Some ''p1''
          \<and> length (memory d') = 1)"
proof -
  let ?m = "sample_memory ''m1'' securely (Some ''p1'') 10 0"
  have dist: "distinct (map mem_id (memory project_db))"
    by (simp add: project_db_def)
  have rows: "memory project_db = [?m]" by (simp add: project_db_def)
  have m: "mem_id ?m = ''m1''" "content ?m = securely" "project_id ?m = Some ''p1''"
    by (simp_all add: sample_memory_def)
  \<comment> \<open>the exact duplicate\<close>
  have g1: "in_global (global_input securely) \<or> truthy (in_projectId (global_input securely)) = None"
    and v1: "trim (in_content (global_input securely)) \<noteq> []"
      "length (in_content (global_input securely)) \<le> MAX_MEMORY_CONTENT_LENGTH"
    and n1: "\<not> in_force (global_input securely)"
    using securely_valid by (simp_all add: global_input_def)
  have h1: "?m \<in> set (memory project_db) \<and> length (memory project_db) \<le> 100
           \<and> normalizeText (content ?m) = normalizeText (in_content (global_input securely))
           \<and> (\<forall>x \<in> set (memory project_db).
                  normalizeText (content x) = normalizeText (in_content (global_input securely))
                  \<longrightarrow> x = ?m)"
    by (simp add: rows m global_input_def)
  note exact = global_insert_scans_all_projects [OF g1 v1 n1 dist, of all_hits "''new''" 50,
      THEN conjunct2, THEN conjunct2, THEN conjunct1, THEN spec, THEN mp, OF h1]
  \<comment> \<open>the near duplicate\<close>
  have g2: "in_global (global_input reliably) \<or> truthy (in_projectId (global_input reliably)) = None"
    and v2: "trim (in_content (global_input reliably)) \<noteq> []"
      "length (in_content (global_input reliably)) \<le> MAX_MEMORY_CONTENT_LENGTH"
    and n2: "\<not> in_force (global_input reliably)"
    using reliably_valid by (simp_all add: global_input_def)
  have join: "fts_join project_db [(fts_of ?m, - 1)] = [(?m, - 1)]"
    by (simp add: fts_join_def rows fts_of_def m)
  have h2a: "find (\<lambda>x. normalizeText (content x) = normalizeText (in_content (global_input reliably)))
             (take 100 (order_by_time_created_desc (memory project_db))) = None"
    using reliably_not_exact
    by (simp add: rows m global_input_def order_by_time_created_desc_def)
  have h2b: "dedup_query (in_content (global_input reliably))
               = Some ''authentication OR requests OR reliably OR signing OR module''"
    using reliably_query by (simp add: global_input_def)
  have h2c: "all_hits (memory_fts project_db)
                ''authentication OR requests OR reliably OR signing OR module''
               = Some [(fts_of ?m, - 1)]"
    by (simp add: all_hits_def project_db_def)
  have h2d: "find (\<lambda>(x, r). computeSimilarity (normalizeText (in_content (global_input reliably)))
                               (normalizeText (content x)) > 6 / 10)
               (take 5 (sort_key snd (fts_join project_db [(fts_of ?m, - 1)]))) = Some (?m, - 1)"
    using reliably_similar
    by (simp add: join m global_input_def)
  from h2a h2b h2c h2d
  have h2: "find (\<lambda>x. normalizeText (content x) = normalizeText (in_content (global_input reliably)))
             (take 100 (order_by_time_created_desc (memory project_db))) = None
           \<and> dedup_query (in_content (global_input reliably))
               = Some ''authentication OR requests OR reliably OR signing OR module''
           \<and> all_hits (memory_fts project_db)
                ''authentication OR requests OR reliably OR signing OR module''
               = Some [(fts_of ?m, - 1)]
           \<and> find (\<lambda>(x, r). computeSimilarity (normalizeText (in_content (global_input reliably)))
                               (normalizeText (content x)) > 6 / 10)
               (take 5 (sort_key snd (fts_join project_db [(fts_of ?m, - 1)]))) = Some (?m, - 1)"
    by (intro conjI)
  note near = global_insert_scans_all_projects [OF g2 v2 n2 dist, of all_hits "''new''" 50,
      THEN conjunct2, THEN conjunct2, THEN conjunct2, THEN spec, THEN spec, THEN spec, THEN spec,
      THEN mp, OF h2]
  from near have "\<exists>d' m'. storeMemory all_hits project_db ''new'' 50 (global_input reliably) = (d', Inr m')
          \<and> mem_id m' = ''m1'' \<and> content m' = reliably \<and> project_id m' = Some ''p1''
          \<and> length (memory d') = 1"
    by (simp add: m rows global_input_def) blast
  with exact m show ?thesis
    by (simp add: global_input_def)
qed

subsection \<open>Ranking\<close>

lemma jwt_query: "sanitizeQuery ''jwt'' = ''jwt'' \<and> trim ''jwt'' \<noteq> []"
  by code_simp

lemma finalRank_a: "finalRank 100 DEFAULT_DECAY_RATE (sample_memory ''a'' ''jwt tokens'' None 100 1) (- 1) = - (10 / 11)"
  by (simp add: finalRank_def sample_memory_def DEFAULT_DECAY_RATE_def)

lemma finalRank_b: "finalRank 100 DEFAULT_DECAY_RATE (sample_memory ''b'' ''jwt tokens'' None 100 0) (- 1) = - 1"
  by (simp add: finalRank_def sample_memory_def DEFAULT_DECAY_RATE_def)

lemma finalRank_new: "finalRank 86500 DEFAULT_DECAY_RATE (sample_memory ''new'' ''jwt tokens'' None 86500 0) (- 1) = - 1"
  by (simp add: finalRank_def sample_memory_def DEFAULT_DECAY_RATE_def)

lemma finalRank_old: "finalRank 86500 DEFAULT_DECAY_RATE (sample_memory ''old'' ''jwt tokens'' None 100 0) (- 1) = - (10077 / 10000)"
  by (simp add: finalRank_def sample_memory_def DEFAULT_DECAY_RATE_def)

lemma rank_db_join:
  "fts_join rank_db [(fts_of (sample_memory ''a'' ''jwt tokens'' None 100 1), - 1),
                     (fts_of (sample_memory ''b'' ''jwt tokens'' None 100 0), - 1)]
   = [(sample_memory ''a'' ''jwt tokens'' None 100 1, - 1),
      (sample_memory ''b'' ''jwt tokens'' None 100 0, - 1)]"
  by (simp add: fts_join_def rank_db_def fts_of_def sample_memory_def)

lemma age_db_join:
  "fts_join age_db [(fts_of (sample_memory ''new'' ''jwt tokens'' None 86500 0), - 1),
                    (fts_of (sample_memory ''old'' ''jwt tokens'' None 100 0), - 1)]
   = [(sample_memory ''new'' ''jwt tokens'' None 86500 0, - 1),
      (sample_memory ''old'' ''jwt tokens'' None 100 0, - 1)]"
  by (simp add: fts_join_def age_db_def fts_of_def sample_memory_def)

lemma rank_db_search:
  "map (\<lambda>r. (mem_id (result_memory r), rank r))
     (snd (searchMemories all_hits rank_db jwt_search 100))
   = [(''b'', - 1), (''a'', - (10 / 11))]"
  using jwt_query finalRank_a finalRank_b rank_db_join
  by (simp add: searchMemories_def jwt_search_def all_hits_def Let_def sql_limit_def
        js_slice0_def truthy_def in_scope_def touch_def)
     (simp add: rank_db_def sample_memory_def)

lemma age_db_search:
  "map (\<lambda>r. (mem_id (result_memory r), rank r))
     (snd (searchMemories all_hits age_db jwt_search 86500))
   = [(''old'', - (10077 / 10000)), (''new'', - 1)]"
  using jwt_query finalRank_new finalRank_old age_db_join
  by (simp add: searchMemories_def jwt_search_def all_hits_def Let_def sql_limit_def
        js_slice0_def truthy_def in_scope_def touch_def)
     (simp add: age_db_def sample_memory_def)

lemma finalRank_access_inverted:
  assumes "base < 0" and "0 \<le> access_count x" and "access_count x < access_count y"
    and "time_created x = time_created y"
    and "0 < 1 + real_of_int (now - time_created x) / 86400 * rate"
  shows "finalRank now rate x base < finalRank now rate y base"
proof -
  define decay where "decay = 1 / (1 + real_of_int (now - time_created x) / 86400 * rate)"
  define bx where "bx = 1 + log 2 (1 + real_of_int (access_count x)) * (1 / 10)"
  define by' where "by' = 1 + log 2 (1 + real_of_int (access_count y)) * (1 / 10)"
  have d: "0 < decay" using assms(5) by (simp add: decay_def)
  have "log 2 (1 + real_of_int (access_count x)) < log 2 (1 + real_of_int (access_count y))"
    using assms(2,3) by simp
  moreover have "0 \<le> log 2 (1 + real_of_int (access_count x))"
    using assms(2) by simp
  ultimately have b: "0 < bx" "bx < by'" by (simp_all add: bx_def by'_def)
  have "base / (decay * bx) < base / (decay * by')"
    using assms(1) d b by (intro divide_strict_left_mono_neg) simp_all
  then show ?thesis
    by (simp add: finalRank_def decay_def bx_def by'_def assms(4) Let_def)
qed

text \<open>
  C1. Of two hits with the same base rank, the one accessed more often, and of two accessed
  equally often the newer one, is to rank no worse. Base ranks are negative and the results
  are sorted ascending, but dividing a negative rank by a boost above 1 moves it towards 0,
  and dividing it by a decay factor below 1 moves it away from 0. In the first store \<^verbatim>\<open>a\<close> has
  been accessed once and \<^verbatim>\<open>b\<close> never, both were created at the time of the search and both
  match with rank -1: \<^verbatim>\<open>b\<close> is returned first. In the second store \<^verbatim>\<open>old\<close> is a day older than
  \<^verbatim>\<open>new\<close>: \<^verbatim>\<open>old\<close> is returned first. (\<open>finalRank_access_inverted\<close> above: the order of the
  scores is the reverse of the order of the access counts, for every negative base rank.)
\<close>

theorem searchMemories_ranking_inverted:
  "map (\<lambda>r. (mem_id (result_memory r), rank r))
     (snd (searchMemories all_hits rank_db jwt_search 100))
   = [(''b'', - 1), (''a'', - (10 / 11))]
   \<and> map (\<lambda>r. (mem_id (result_memory r), rank r))
     (snd (searchMemories all_hits age_db jwt_search 86500))
   = [(''old'', - (10077 / 10000)), (''new'', - 1)]"
  by (simp only: rank_db_search age_db_search)

subsection \<open>Export and import\<close>

lemma sample_db_export:
  "memory_export sample_db ''p'' None None =
     [\<lparr>e_id = ''b'', e_content = ''new decision'', e_category = ''general'', e_source = None,
       e_project_id = None, e_time_created = 20, e_time_updated = 20, e_access_count = 0,
       e_tags = [], e_links = [(''a'', ''supersedes'')]\<rparr>,
      \<lparr>e_id = ''a'', e_content = ''old decision'', e_category = ''general'', e_source = None,
       e_project_id = None, e_time_created = 10, e_time_updated = 10, e_access_count = 0,
       e_tags = [''auth''], e_links = [(''b'', ''supersedes'')]\<rparr>]"
  by code_simp

text \<open>In the same round trip the memories and the tags do come back, under the new identifiers.\<close>

lemma export_import_fields:
  "map (\<lambda>m. (mem_id m, content m, category m, source m, project_id m))
     (memory (im_db (memory_import no_hits sample_uuid sample_clock empty_db
                       (memory_export sample_db ''p'' None None))))
     = [(''n0'', ''new decision'', ''general'', None, None),
        (''n1'', ''old decision'', ''general'', None, None)]
   \<and> memory_tags (im_db (memory_import no_hits sample_uuid sample_clock empty_db
                           (memory_export sample_db ''p'' None None)))
     = [\<lparr>memory_id = ''n1'', tag = ''auth''\<rparr>]"
  by code_simp

text \<open>
  With an edge in each direction the export lists both relationships under each memory, the
  one of the edge that leaves it first, and the import writes them one after the other onto
  the same ordered pair, where the second replaces the first: the two relationships come
  back exchanged. Here \<^verbatim>\<open>a\<close> extends \<^verbatim>\<open>b\<close> and \<^verbatim>\<open>b\<close> contradicts \<^verbatim>\<open>a\<close>; after the round trip
  the copy of \<^verbatim>\<open>b\<close> (\<^verbatim>\<open>n0\<close>) extends the copy of \<^verbatim>\<open>a\<close> (\<^verbatim>\<open>n1\<close>), which contradicts it.
\<close>

lemma export_import_exchanges_relationships:
  "memory_links mutual_db
     = [\<lparr>source_id = ''a'', target_id = ''b'', relationship = ''extends''\<rparr>,
        \<lparr>source_id = ''b'', target_id = ''a'', relationship = ''contradicts''\<rparr>]
   \<and> memory_links (im_db (memory_import no_hits sample_uuid sample_clock empty_db
                          (memory_export mutual_db ''p'' None None)))
     = [\<lparr>source_id = ''n0'', target_id = ''n1'', relationship = ''extends''\<rparr>,
        \<lparr>source_id = ''n1'', target_id = ''n0'', relationship = ''contradicts''\<rparr>]"
  by code_simp

text \<open>
  C5. Export and import are to restore the links of every exported memory, with the same
  relationships between the corresponding memories. The export lists, under each memory, every
  edge that touches it, with the other end as \<^verbatim>\<open>target_id\<close>; the import adds each listed
  link as an edge from the entry to that target. A store with the single edge from \<^verbatim>\<open>b\<close> to
  \<^verbatim>\<open>a\<close> comes back with two edges: the copy of \<^verbatim>\<open>b\<close> supersedes the copy of \<^verbatim>\<open>a\<close>, and the
  copy of \<^verbatim>\<open>a\<close> supersedes the copy of \<^verbatim>\<open>b\<close>.
\<close>

theorem export_import_reverses_links:
  "memory_links sample_db
     = [\<lparr>source_id = ''b'', target_id = ''a'', relationship = ''supersedes''\<rparr>]
   \<and> map (idMap (memory_import no_hits sample_uuid sample_clock empty_db
                    (memory_export sample_db ''p'' None None))) [''b'', ''a'']
     = [Some ''n0'', Some ''n1'']
   \<and> memory_links (im_db (memory_import no_hits sample_uuid sample_clock empty_db
                             (memory_export sample_db ''p'' None None)))
     = [\<lparr>source_id = ''n0'', target_id = ''n1'', relationship = ''supersedes''\<rparr>,
        \<lparr>source_id = ''n1'', target_id = ''n0'', relationship = ''supersedes''\<rparr>]"
  by code_simp

end
